theory Spec2Isabelle
  imports Complex_Main "HOL-Library.Word" "HOL-Library.Log_Nat"
begin

unbundle bit_operations_syntax

section \<open>Exceptions\<close>

text \<open>
  The Python exceptions that the script can meet, as values.  \<open>OSError\<close> is the class
  that Python 3 also calls \<open>IOError\<close>; \<open>FileNotFoundError\<close>, \<open>IsADirectoryError\<close> and
  \<open>FileExistsError\<close> are subclasses of it.  \<open>AuthenticationException\<close> is a subclass of
  paramiko's \<open>SSHException\<close>.  \<open>KeyboardInterrupt\<close> is the only one that is not a
  subclass of \<open>Exception\<close>.
\<close>

datatype error =
    KeyError
  | ZeroDivisionError
  | OverflowError
  | RecursionError
  | NameError
  | EOFError
  | KeyboardInterrupt
  | OSError
  | FileNotFoundError
  | IsADirectoryError
  | FileExistsError
  | SSHException
  | AuthenticationException

fun is_Exception :: "error \<Rightarrow> bool" where
  "is_Exception KeyboardInterrupt = False"
| "is_Exception _ = True"

fun is_IOError :: "error \<Rightarrow> bool" where
  "is_IOError OSError = True"
| "is_IOError FileNotFoundError = True"
| "is_IOError IsADirectoryError = True"
| "is_IOError FileExistsError = True"
| "is_IOError _ = False"

fun is_SSHException :: "error \<Rightarrow> bool" where
  "is_SSHException SSHException = True"
| "is_SSHException AuthenticationException = True"
| "is_SSHException _ = False"

section \<open>format\_size\<close>

text \<open>
  \<^verbatim>\<open>
  def format_size(size):
      power = 2**10
      n = 0
      power_labels = {0: '', 1: 'KB', 2: 'MB', 3: 'GB'}
      while size > power:
          size /= power
          n += 1
      return f"{size:.2f} {power_labels[n]}"
  \<close>
  The argument is a Python int (a byte count).  The first \<open>size /= power\<close> divides two
  ints and gives a float; every later one divides a float by \<open>2**10\<close>.  A value of the
  loop is therefore an int or a float (\<open>num\<close>); a float is kept as the rational number
  that it is.

  The division of two ints gives the float nearest to the quotient, ties to the even
  neighbour.  The divisor is a power of two, so this is the nearest float of the
  numerator, scaled: \<open>round53\<close> keeps the 53 leading bits of a positive int.  When the
  result is beyond the largest float, the division raises \<open>OverflowError\<close>.  The
  division of a float above 1024 by \<open>2**10\<close> is exact.  The comparison of an int or a
  float with the int \<open>power\<close> is exact.

  The result is the pair of the value and the label that the f-string renders; the
  rendering of the value with two decimals is not part of the model.  A key that is not
  in \<open>power_labels\<close> raises \<open>KeyError\<close>.  (\<open>power_c\<close> is the source's \<open>power\<close>.)
\<close>

datatype num = PyInt int | PyFloat rat

fun num_value :: "num \<Rightarrow> rat" where
  "num_value (PyInt a) = of_int a"
| "num_value (PyFloat f) = f"

definition round53 :: "int \<Rightarrow> int" where
  "round53 a =
     (if a < 2 ^ 53 then a
      else
        let s = nat (bitlen a - 53);
            q = a div 2 ^ s;
            r = a mod 2 ^ s
        in if 2 ^ s < 2 * r \<or> (2 * r = 2 ^ s \<and> odd q) then (q + 1) * 2 ^ s else q * 2 ^ s)"

definition power_c :: int where
  "power_c = 2 ^ 10"

definition power_labels :: "(nat \<times> string) list" where
  "power_labels = [(0, ''''), (1, ''KB''), (2, ''MB''), (3, ''GB'')]"

definition divide_by_power :: "num \<Rightarrow> error + num" where
  "divide_by_power sz =
     (case sz of
        PyInt a \<Rightarrow>
          (let f = of_int (round53 a) / of_int power_c
           in if 2 ^ 1024 \<le> f then Inl OverflowError else Inr (PyFloat f))
      | PyFloat f \<Rightarrow> Inr (PyFloat (f / of_int power_c)))"

function size_loop :: "num \<Rightarrow> nat \<Rightarrow> error + num \<times> nat" where
  "size_loop sz n =
     (if num_value sz > of_int power_c
      then (case divide_by_power sz of
              Inl e \<Rightarrow> Inl e
            | Inr sz' \<Rightarrow> size_loop sz' (n + 1))
      else Inr (sz, n))"
  by pat_completeness auto
termination
proof (relation "measures [\<lambda>(sz, n). case sz of PyInt a \<Rightarrow> 1 | PyFloat f \<Rightarrow> 0,
                          \<lambda>(sz, n). nat \<lfloor>num_value sz\<rfloor>]")
  show "wf (measures [\<lambda>(sz :: num, n :: nat). case sz of PyInt a \<Rightarrow> 1 | PyFloat f \<Rightarrow> (0 :: nat),
                          \<lambda>(sz, n). nat \<lfloor>num_value sz\<rfloor>])" by simp
next
  fix sz :: num and n :: nat and sz' :: num
  assume gt: "of_int power_c < num_value sz" and d: "divide_by_power sz = Inr sz'"
  show "((sz', n + 1), (sz, n)) \<in> measures [\<lambda>(sz, n). case sz of PyInt a \<Rightarrow> 1 | PyFloat f \<Rightarrow> 0,
                          \<lambda>(sz, n). nat \<lfloor>num_value sz\<rfloor>]"
  proof (cases sz)
    case (PyInt a)
    with d obtain f where "sz' = PyFloat f"
      by (auto simp: divide_by_power_def Let_def split: if_splits)
    with PyInt show ?thesis by simp
  next
    case (PyFloat f)
    with d have s': "sz' = PyFloat (f / 1024)" by (simp add: divide_by_power_def power_c_def)
    from gt PyFloat have big: "1024 < f" by (simp add: power_c_def)
    have "f / 1024 \<le> f - 1" using big by simp
    then have "\<lfloor>f / 1024\<rfloor> \<le> \<lfloor>f - 1\<rfloor>" by (rule floor_mono)
    then have "\<lfloor>f / 1024\<rfloor> < \<lfloor>f\<rfloor>" by simp
    moreover have "0 < \<lfloor>f\<rfloor>" using big by simp
    ultimately show ?thesis using PyFloat s' by simp
  qed
qed

declare size_loop.simps [simp del]

definition format_size :: "int \<Rightarrow> error + (rat \<times> string)" where
  "format_size sz =
     (case size_loop (PyInt sz) 0 of
        Inl e \<Rightarrow> Inl e
      | Inr (v, n) \<Rightarrow>
          (case map_of power_labels n of
             None \<Rightarrow> Inl KeyError
           | Some label \<Rightarrow> Inr (num_value v, label)))"

section \<open>Paths\<close>

text \<open>
  \<open>os.path.join\<close> with two arguments, as \<open>posixpath\<close> defines it: a second
  component that starts with a slash replaces the first; otherwise the two are put
  together with exactly one slash between them.
\<close>

definition path_join :: "string \<Rightarrow> string \<Rightarrow> string" where
  "path_join a b =
     (if b \<noteq> [] \<and> hd b = CHR ''/'' then b
      else if a = [] \<or> last a = CHR ''/'' then a @ b
      else a @ ''/'' @ b)"

section \<open>The transport and the local file system\<close>

text \<open>
  The SFTP client is an external collaborator; the script uses four of its
  operations.  An \<open>item\<close> is one \<open>SFTPAttributes\<close> entry of a listing.  The remote side
  is a record of the answers the server gives: each operation returns its value or raises.
  \<open>read_chunks\<close> is the sequence of blocks that successive reads of the opened remote
  file deliver.
\<close>

type_synonym byte = "8 word"

record item =
  filename :: string
  st_mode :: int
  st_size :: int

record sftp_client =
  listdir_attr :: "string \<Rightarrow> error + item list"
  listdir :: "string \<Rightarrow> error + string list"
  stat :: "string \<Rightarrow> error + item"
  read_chunks :: "string \<Rightarrow> error + byte list list"

text \<open>
  The local file system maps a path to what is stored there.  Everything the script
  prints and every call it makes to the outside is appended to a trace, so that a
  property such as ``no listing was attempted'' is a property of the trace.
\<close>

datatype lnode = LFile "byte list" | LDir

datatype prompt = PUser | PPassword | PCase | PLocalParent | PChoice | PFilename

datatype msg =
    Downloading string "rat \<times> string"
  | Progress rat "rat \<times> string" "rat \<times> string"
  | DownloadComplete string
  | Established
  | AuthFailed
  | SSHFailed
  | Aborted
  | NoRemoteDir string
  | Contents string "string list"
  | NoRemoteFile string
  | InvalidChoice
  | Completed
  | ErrorOccurred error
  | SessionEnded

datatype event =
    Print msg
  | Input prompt
  | Connect string string
  | OpenSftp
  | CloseSftp
  | CloseSSH
  | Listdir string
  | ListdirAttr string
  | Stat string
  | Getfo string
  | Makedirs string
  | OpenWb string

record world =
  lfs :: "string \<rightharpoonup> lnode"
  trace :: "event list"

definition emit :: "event \<Rightarrow> world \<Rightarrow> world" where
  "emit e w = w\<lparr>trace := trace w @ [e]\<rparr>"

text \<open>
  The local file system is a flat map from path strings to what is stored there: a path
  is looked up as it is written, without normalisation, and its entry is not related to
  the entry of its parent directory.  On this map, \<open>os.makedirs(p, exist_ok=True)\<close>
  accepts a directory that is already there and raises \<open>FileExistsError\<close> on a regular
  file in its place; \<open>os.makedirs(p)\<close> raises on anything that is already there;
  \<open>open(p, 'wb')\<close> creates the file or truncates the one that is there, and raises
  \<open>IsADirectoryError\<close> on a directory.

  The three operations agree with the real calls where the directory part of \<open>p\<close> is an
  existing directory and the last component is the name of an entry (not empty, without
  a slash, not \<open>.\<close> or \<open>..\<close>).  Elsewhere they do not: with a regular file in the place
  of the parent the real \<open>open\<close> raises \<open>NotADirectoryError\<close>, with a missing parent
  \<open>FileNotFoundError\<close>, with an empty last component (a trailing slash) on a directory
  \<open>IsADirectoryError\<close>, and \<open>open_wb\<close> succeeds in all three; the real \<open>os.makedirs\<close>
  also creates the missing parents and raises when one of them is a regular file.  The
  properties of the walker that let a call follow an \<open>open\<close> or an \<open>os.makedirs\<close>
  therefore assume that the local directory is there and that the name is a plain one.
  Permissions and symbolic links are not part of the model.
\<close>

definition makedirs_exist_ok :: "string \<Rightarrow> world \<Rightarrow> (error + unit) \<times> world" where
  "makedirs_exist_ok p w =
     (let w1 = emit (Makedirs p) w
      in case lfs w p of
           Some (LFile _) \<Rightarrow> (Inl FileExistsError, w1)
         | Some LDir \<Rightarrow> (Inr (), w1)
         | None \<Rightarrow> (Inr (), w1\<lparr>lfs := (lfs w1)(p \<mapsto> LDir)\<rparr>))"

definition makedirs :: "string \<Rightarrow> world \<Rightarrow> (error + unit) \<times> world" where
  "makedirs p w =
     (let w1 = emit (Makedirs p) w
      in case lfs w p of
           Some _ \<Rightarrow> (Inl FileExistsError, w1)
         | None \<Rightarrow> (Inr (), w1\<lparr>lfs := (lfs w1)(p \<mapsto> LDir)\<rparr>))"

definition open_wb :: "string \<Rightarrow> world \<Rightarrow> (error + unit) \<times> world" where
  "open_wb p w =
     (let w1 = emit (OpenWb p) w
      in case lfs w p of
           Some LDir \<Rightarrow> (Inl IsADirectoryError, w1)
         | _ \<Rightarrow> (Inr (), w1\<lparr>lfs := (lfs w1)(p \<mapsto> LFile [])\<rparr>))"

definition write_chunk :: "string \<Rightarrow> byte list \<Rightarrow> world \<Rightarrow> world" where
  "write_chunk p c w =
     (case lfs w p of
        Some (LFile old) \<Rightarrow> w\<lparr>lfs := (lfs w)(p \<mapsto> LFile (old @ c))\<rparr>
      | _ \<Rightarrow> w)"

section \<open>should\_exclude and print\_progress\<close>

text \<open>
  \<^verbatim>\<open>
  def should_exclude(filename):
      exclude_patterns = ['.sfdcprefix', '.sfdc-file-listing-v1']
      return filename in exclude_patterns

  def print_progress(transferred, total, remotefile_size):
      percent = transferred / remotefile_size * 100
      print(f"Progress: {percent:.2f}% - {format_size(transferred)} / {format_size(remotefile_size)}", end='\r')
  \<close>
  The division of two ints raises \<open>ZeroDivisionError\<close> when the divisor is zero.  The
  f-string is evaluated, left to right, before anything is printed.  The parameter
  \<open>total\<close> (\<open>tot\<close> below) is not used by the body.  The percentage is kept as the
  exact quotient, which the float approximates; its rendering is not part of the model.
\<close>

definition exclude_patterns :: "string list" where
  "exclude_patterns = [''.sfdcprefix'', ''.sfdc-file-listing-v1'']"

definition should_exclude :: "string \<Rightarrow> bool" where
  "should_exclude name = (name \<in> set exclude_patterns)"

definition print_progress :: "int \<Rightarrow> int \<Rightarrow> int \<Rightarrow> world \<Rightarrow> (error + unit) \<times> world" where
  "print_progress transferred tot remotefile_size w =
     (if remotefile_size = 0 then (Inl ZeroDivisionError, w)
      else
        let percent = of_int transferred / of_int remotefile_size * 100
        in case format_size transferred of
             Inl e \<Rightarrow> (Inl e, w)
           | Inr a \<Rightarrow>
               (case format_size remotefile_size of
                  Inl e \<Rightarrow> (Inl e, w)
                | Inr b \<Rightarrow> (Inr (), emit (Print (Progress percent a b)) w)))"

section \<open>The transfer of one file\<close>

text \<open>
  \<open>sftp.getfo(remotepath, fl, callback)\<close> of the transport: it asks for the remote
  size, opens the remote file and copies it block by block into the open local file.
  After every block that is not empty it calls \<open>callback(bytes so far, size)\<close>; an
  empty block ends the copy.  An exception of the callback ends the transfer with what
  was written so far.
\<close>

fun transfer ::
  "(int \<Rightarrow> int \<Rightarrow> world \<Rightarrow> (error + unit) \<times> world) \<Rightarrow> int \<Rightarrow> string \<Rightarrow> byte list list \<Rightarrow> int \<Rightarrow>
     world \<Rightarrow> (error + int) \<times> world" where
  "transfer callback file_size lp [] sofar w = (Inr sofar, w)"
| "transfer callback file_size lp (c # cs) sofar w =
     (let w1 = write_chunk lp c w;
          sofar' = sofar + int (length c)
      in if c = [] then (Inr sofar', w1)
         else (case callback sofar' file_size w1 of
                 (Inl e, w2) \<Rightarrow> (Inl e, w2)
               | (Inr _, w2) \<Rightarrow> transfer callback file_size lp cs sofar' w2))"

definition getfo ::
  "sftp_client \<Rightarrow> string \<Rightarrow> string \<Rightarrow> (int \<Rightarrow> int \<Rightarrow> world \<Rightarrow> (error + unit) \<times> world) \<Rightarrow>
     world \<Rightarrow> (error + int) \<times> world" where
  "getfo sftp remotepath lp callback w =
     (let w1 = emit (Getfo remotepath) w
      in case stat sftp remotepath of
           Inl e \<Rightarrow> (Inl e, w1)
         | Inr a \<Rightarrow>
             (case read_chunks sftp remotepath of
                Inl e \<Rightarrow> (Inl e, w1)
              | Inr cs \<Rightarrow> transfer callback (st_size a) lp cs 0 w1))"

text \<open>
  The file case of the walker (lines 39 to 43 of the script):
  \<^verbatim>\<open>
  remote_size = item.st_size
  print(f"\nDownloading {item.filename} ({format_size(remote_size)})...")
  with open(local_path, 'wb') as local_file:
      sftp.getfo(remote_path, local_file, callback=lambda x, y: print_progress(x, y, remote_size))
  print(f"\nDownload of {item.filename} complete")
  \<close>
\<close>

definition download_file :: "sftp_client \<Rightarrow> item \<Rightarrow> string \<Rightarrow> string \<Rightarrow> world \<Rightarrow> (error + unit) \<times> world" where
  "download_file sftp it remote_path local_path w =
     (let remote_size = st_size it
      in case format_size remote_size of
           Inl e \<Rightarrow> (Inl e, w)
         | Inr label \<Rightarrow>
             (let w1 = emit (Print (Downloading (filename it) label)) w
              in case open_wb local_path w1 of
                   (Inl e, w2) \<Rightarrow> (Inl e, w2)
                 | (Inr _, w2) \<Rightarrow>
                     (case getfo sftp remote_path local_path (\<lambda>x y. print_progress x y remote_size) w2 of
                        (Inl e, w3) \<Rightarrow> (Inl e, w3)
                      | (Inr _, w3) \<Rightarrow> (Inr (), emit (Print (DownloadComplete (filename it))) w3))))"

section \<open>download\_directory\<close>

text \<open>
  \<^verbatim>\<open>
  def download_directory(sftp, remote_dir, local_dir):
      for item in sftp.listdir_attr(remote_dir):
          if not should_exclude(item.filename):
              remote_path = os.path.join(remote_dir, item.filename)
              local_path = os.path.join(local_dir, item.filename)

              if item.st_mode & 0o4000:  # Download complete Directory
                  os.makedirs(local_path, exist_ok=True)
                  download_directory(sftp, remote_path, local_path)
              else:  # Download a single File
                  ...
  \<close>
  \<open>download_items\<close> is the \<open>for\<close> loop over the listing.  The octal constant \<open>0o4000\<close>
  is \<open>2048\<close>.  The second argument is the number of nested calls that the interpreter's
  recursion limit still allows: a call beyond it raises \<open>RecursionError\<close>.  An exception
  anywhere ends the walk.
\<close>

fun download_directory :: "sftp_client \<Rightarrow> nat \<Rightarrow> string \<Rightarrow> string \<Rightarrow> world \<Rightarrow> (error + unit) \<times> world"
  and download_items :: "sftp_client \<Rightarrow> nat \<Rightarrow> string \<Rightarrow> string \<Rightarrow> item list \<Rightarrow> world \<Rightarrow> (error + unit) \<times> world"
  where
  "download_directory sftp 0 remote_dir local_dir w = (Inl RecursionError, w)"
| "download_directory sftp (Suc depth) remote_dir local_dir w =
     (let w1 = emit (ListdirAttr remote_dir) w
      in case listdir_attr sftp remote_dir of
           Inl e \<Rightarrow> (Inl e, w1)
         | Inr items \<Rightarrow> download_items sftp depth remote_dir local_dir items w1)"
| "download_items sftp depth remote_dir local_dir [] w = (Inr (), w)"
| "download_items sftp depth remote_dir local_dir (it # rest) w =
     (if \<not> should_exclude (filename it) then
        (let remote_path = path_join remote_dir (filename it);
             local_path = path_join local_dir (filename it)
         in if st_mode it AND 2048 \<noteq> 0 then
              (case makedirs_exist_ok local_path w of
                 (Inl e, w1) \<Rightarrow> (Inl e, w1)
               | (Inr _, w1) \<Rightarrow>
                   (case download_directory sftp depth remote_path local_path w1 of
                      (Inl e, w2) \<Rightarrow> (Inl e, w2)
                    | (Inr _, w2) \<Rightarrow> download_items sftp depth remote_dir local_dir rest w2))
            else
              (case download_file sftp it remote_path local_path w of
                 (Inl e, w1) \<Rightarrow> (Inl e, w1)
               | (Inr _, w1) \<Rightarrow> download_items sftp depth remote_dir local_dir rest w1))
      else download_items sftp depth remote_dir local_dir rest w)"

section \<open>The interactive session\<close>

text \<open>
  What the user does at a prompt: type a line, or interrupt.  When nothing is left to
  read, \<open>input\<close> raises \<open>EOFError\<close>.
\<close>

datatype inp = Line string | Interrupt

fun read_input :: "prompt \<Rightarrow> inp list \<Rightarrow> world \<Rightarrow> (error + string) \<times> inp list \<times> world" where
  "read_input p [] w = (Inl EOFError, [], emit (Input p) w)"
| "read_input p (Interrupt # ins) w = (Inl KeyboardInterrupt, ins, emit (Input p) w)"
| "read_input p (Line l # ins) w = (Inr l, ins, emit (Input p) w)"

text \<open>
  \<open>str.lower\<close> on the answer to the yes/no question.  On ASCII letters it is the map
  below; no character outside ASCII lowers to a letter of \<open>yes\<close> or \<open>no\<close>.
\<close>

definition lower_char :: "char \<Rightarrow> char" where
  "lower_char c =
     (case map_of (zip ''ABCDEFGHIJKLMNOPQRSTUVWXYZ'' ''abcdefghijklmnopqrstuvwxyz'') c of
        Some d \<Rightarrow> d
      | None \<Rightarrow> c)"

definition lower :: "string \<Rightarrow> string" where
  "lower l = map lower_char l"

text \<open>
  The environment of one run: what the \<open>k\<close>-th call of \<open>ssh_client.connect\<close> does
  (\<open>None\<close>: it returns), what \<open>ssh_client.open_sftp\<close> gives, \<open>os.path.expanduser\<close>, and
  the depth that the recursion limit leaves to \<open>download_directory\<close>.
\<close>

record env =
  connect :: "nat \<Rightarrow> string \<Rightarrow> string \<Rightarrow> error option"
  open_sftp :: "error + sftp_client"
  expanduser :: "string \<Rightarrow> string"
  recursion_limit :: nat

text \<open>
  Lines 120 to 129: ask for a file name until \<open>sftp.stat\<close> finds it.
  \<^verbatim>\<open>
  while True:
      filename = input("\nEnter the filename you want to download: ")
      remote_file_path = os.path.join(remote_directory, filename)
      local_file_path = os.path.join(local_case_directory, filename)
      try:
          sftp.stat(remote_file_path)
          break
      except FileNotFoundError:
          print(f"Remote file '{filename}' does not exist. Please enter a valid filename.")
  \<close>
\<close>

fun filename_loop ::
  "sftp_client \<Rightarrow> string \<Rightarrow> string \<Rightarrow> inp list \<Rightarrow> world \<Rightarrow> (error + string \<times> string \<times> string) \<times> inp list \<times> world" where
  "filename_loop sftp remote_directory local_case_directory [] w =
     (Inl EOFError, [], emit (Input PFilename) w)"
| "filename_loop sftp remote_directory local_case_directory (Interrupt # ins) w =
     (Inl KeyboardInterrupt, ins, emit (Input PFilename) w)"
| "filename_loop sftp remote_directory local_case_directory (Line name # ins) w =
     (let remote_file_path = path_join remote_directory name;
          local_file_path = path_join local_case_directory name;
          w1 = emit (Stat remote_file_path) (emit (Input PFilename) w)
      in case stat sftp remote_file_path of
           Inr _ \<Rightarrow> (Inr (name, remote_file_path, local_file_path), ins, w1)
         | Inl e \<Rightarrow>
             if e = FileNotFoundError
             then filename_loop sftp remote_directory local_case_directory ins
                    (emit (Print (NoRemoteFile name)) w1)
             else (Inl e, ins, w1))"

text \<open>
  Lines 131 to 134, the transfer of the chosen file:
  \<^verbatim>\<open>
  with open(local_file_path, 'wb') as local_file:
      remote_size = sftp.stat(remote_file_path).st_size
      sftp.getfo(remote_file_path, local_file, callback=lambda x, y: print_progress(x, y, remote_size))
  print(f"\nDownload of {filename} complete")
  \<close>
\<close>

definition single_file :: "sftp_client \<Rightarrow> string \<Rightarrow> string \<Rightarrow> string \<Rightarrow> world \<Rightarrow> (error + unit) \<times> world" where
  "single_file sftp name remote_file_path local_file_path w =
     (case open_wb local_file_path w of
        (Inl e, w1) \<Rightarrow> (Inl e, w1)
      | (Inr _, w1) \<Rightarrow>
          (let w2 = emit (Stat remote_file_path) w1
           in case stat sftp remote_file_path of
                Inl e \<Rightarrow> (Inl e, w2)
              | Inr a \<Rightarrow>
                  (let remote_size = st_size a
                   in case getfo sftp remote_file_path local_file_path
                             (\<lambda>x y. print_progress x y remote_size) w2 of
                        (Inl e, w3) \<Rightarrow> (Inl e, w3)
                      | (Inr _, w3) \<Rightarrow> (Inr (), emit (Print (DownloadComplete name)) w3))))"

text \<open>
  Lines 115 to 136: the choice between the whole folder and one file.  \<open>choice\<close> is the
  answer after \<open>.lower()\<close>.
\<close>

definition act_on_choice ::
  "env \<Rightarrow> sftp_client \<Rightarrow> string \<Rightarrow> string \<Rightarrow> string \<Rightarrow> inp list \<Rightarrow> world \<Rightarrow> (error + unit) \<times> inp list \<times> world" where
  "act_on_choice env sftp remote_directory local_case_directory choice ins w =
     (if choice = ''yes'' then
        (case download_directory sftp (recursion_limit env) remote_directory local_case_directory w of
           (r, w1) \<Rightarrow> (r, ins, w1))
      else if choice = ''no'' then
        (case filename_loop sftp remote_directory local_case_directory ins w of
           (Inl e, ins1, w1) \<Rightarrow> (Inl e, ins1, w1)
         | (Inr (name, remote_file_path, local_file_path), ins1, w1) \<Rightarrow>
             (case single_file sftp name remote_file_path local_file_path w1 of
                (r, w2) \<Rightarrow> (r, ins1, w2)))
      else (Inr (), ins, emit (Print InvalidChoice) w))"

text \<open>
  Lines 95 to 138, the body of \<open>with ssh_client.open_sftp() as sftp\<close>.  Both the
  \<open>continue\<close> of line 101 and the end of the block lead to the next round of the
  connection loop, so both are the result \<open>Inr ()\<close>.
\<close>

definition case_body ::
  "env \<Rightarrow> sftp_client \<Rightarrow> string \<Rightarrow> string \<Rightarrow> inp list \<Rightarrow> world \<Rightarrow> (error + unit) \<times> inp list \<times> world" where
  "case_body env sftp case_number local_parent_directory ins w =
     (let remote_directory = ''/case/'' @ case_number;
          w1 = emit (Listdir remote_directory) w
      in case listdir sftp remote_directory of
           Inl e \<Rightarrow>
             if is_IOError e then (Inr (), ins, emit (Print (NoRemoteDir case_number)) w1)
             else (Inl e, ins, w1)
         | Inr _ \<Rightarrow>
             (let local_case_directory =
                    path_join (expanduser env local_parent_directory) case_number
              in case (if lfs w1 local_case_directory = None then makedirs local_case_directory w1
                       else (Inr (), w1)) of
                   (Inl e, w2) \<Rightarrow> (Inl e, ins, w2)
                 | (Inr _, w2) \<Rightarrow>
                     (let w3 = emit (Listdir remote_directory) w2
                      in case listdir sftp remote_directory of
                           Inl e \<Rightarrow> (Inl e, ins, w3)
                         | Inr remote_contents \<Rightarrow>
                             (let w4 = emit (Print (Contents case_number remote_contents)) w3
                              in case read_input PChoice ins w4 of
                                   (Inl e, ins1, w5) \<Rightarrow> (Inl e, ins1, w5)
                                 | (Inr answer, ins1, w5) \<Rightarrow>
                                     (case act_on_choice env sftp remote_directory
                                             local_case_directory (lower answer) ins1 w5 of
                                        (Inl e, ins2, w6) \<Rightarrow> (Inl e, ins2, w6)
                                      | (Inr _, ins2, w6) \<Rightarrow>
                                          (Inr (), ins2, emit (Print Completed) w6))))))"

text \<open>
  Lines 88 to 138, the body of the inner \<open>try\<close>: the two questions, then the \<open>with\<close>
  block, whose exit closes the SFTP channel on every path.
\<close>

definition selection :: "env \<Rightarrow> inp list \<Rightarrow> world \<Rightarrow> (error + unit) \<times> inp list \<times> world" where
  "selection env ins w =
     (case read_input PCase ins w of
        (Inl e, ins1, w1) \<Rightarrow> (Inl e, ins1, w1)
      | (Inr case_number, ins1, w1) \<Rightarrow>
          (case read_input PLocalParent ins1 w1 of
             (Inl e, ins2, w2) \<Rightarrow> (Inl e, ins2, w2)
           | (Inr local_parent_directory, ins2, w2) \<Rightarrow>
               (let w3 = emit OpenSftp w2
                in case open_sftp env of
                     Inl e \<Rightarrow> (Inl e, ins2, w3)
                   | Inr sftp \<Rightarrow>
                       (case case_body env sftp case_number local_parent_directory ins2 w3 of
                          (r, ins3, w4) \<Rightarrow> (r, ins3, emit CloseSftp w4)))))"

text \<open>
  One round of \<open>while True\<close> (lines 74 to 142): connect, then the inner \<open>try\<close>.  A round
  ends by going on to the next round, by \<open>break\<close>, or with an exception that neither
  handler takes.
\<close>

datatype flow = Continue | Break | Raise error

definition iteration ::
  "env \<Rightarrow> string \<Rightarrow> string \<Rightarrow> nat \<Rightarrow> inp list \<Rightarrow> world \<Rightarrow> flow \<times> inp list \<times> world" where
  "iteration env username password k ins w =
     (let w1 = emit (Connect username password) w
      in case connect env k username password of
           Some e \<Rightarrow>
             if e = AuthenticationException then (Break, ins, emit (Print AuthFailed) w1)
             else if is_SSHException e then (Break, ins, emit (Print SSHFailed) w1)
             else if e = KeyboardInterrupt then (Break, ins, emit (Print Aborted) w1)
             else (Raise e, ins, w1)
         | None \<Rightarrow>
             (let w2 = emit (Print Established) w1
              in case selection env ins w2 of
                   (Inl e, ins1, w3) \<Rightarrow>
                     if e = KeyboardInterrupt then (Break, ins1, emit (Print Aborted) w3)
                     else (Raise e, ins1, w3)
                 | (Inr _, ins1, w3) \<Rightarrow> (Continue, ins1, w3)))"

text \<open>
  Every round that goes on to the next one has read the case number, so the rounds
  use up the user's input and the loop below is total.
\<close>

lemma read_input_length:
  "read_input p ins w = (r, ins1, w1) \<Longrightarrow>
     length ins1 \<le> length ins \<and> (\<forall>l. r = Inr l \<longrightarrow> length ins1 < length ins)"
  by (cases "(p, ins, w)" rule: read_input.cases) auto

lemma filename_loop_length:
  "filename_loop sftp rd ld ins w = (r, ins1, w1) \<Longrightarrow> length ins1 \<le> length ins"
proof (induction sftp rd ld ins w arbitrary: r ins1 w1 rule: filename_loop.induct)
  case (3 sftp rd ld name ins w)
  show ?case
  proof (cases "stat sftp (path_join rd name)")
    case (Inr a)
    with "3.prems" show ?thesis by (simp add: Let_def)
  next
    case (Inl e)
    show ?thesis
    proof (cases "e = FileNotFoundError")
      case True
      with Inl "3.prems" have
        "filename_loop sftp rd ld ins
           (emit (Print (NoRemoteFile name)) (emit (Stat (path_join rd name)) (emit (Input PFilename) w)))
         = (r, ins1, w1)"
        by (simp add: Let_def)
      from "3.IH" [OF refl refl refl Inl True this] show ?thesis by simp
    next
      case False
      with Inl "3.prems" show ?thesis by (simp add: Let_def)
    qed
  qed
qed simp_all

lemma act_on_choice_length:
  "act_on_choice env sftp rd ld choice ins w = (r, ins1, w1) \<Longrightarrow> length ins1 \<le> length ins"
  by (auto simp: act_on_choice_def split: if_splits prod.splits sum.splits
      dest: filename_loop_length)

lemma case_body_length:
  "case_body env sftp cn lpd ins w = (r, ins1, w1) \<Longrightarrow> length ins1 \<le> length ins"
  by (auto simp: case_body_def Let_def split: if_splits prod.splits sum.splits
      dest!: act_on_choice_length read_input_length)

lemma selection_length:
  "selection env ins w = (Inr u, ins1, w1) \<Longrightarrow> length ins1 < length ins"
  by (auto simp: selection_def Let_def split: if_splits prod.splits sum.splits
      dest!: case_body_length read_input_length)

lemma iteration_length:
  "iteration env username password k ins w = (Continue, ins1, w1) \<Longrightarrow> length ins1 < length ins"
  by (auto simp: iteration_def Let_def split: if_splits prod.splits sum.splits option.splits
      dest!: selection_length)

text \<open>
  The loop \<open>while True\<close> of line 74.  It ends by \<open>break\<close> (\<open>None\<close>) or with an exception
  (\<open>Some e\<close>); a round that completes is followed by another round, which connects again.
\<close>

function connect_loop ::
  "env \<Rightarrow> string \<Rightarrow> string \<Rightarrow> nat \<Rightarrow> inp list \<Rightarrow> world \<Rightarrow> error option \<times> inp list \<times> world" where
  "connect_loop env username password k ins w =
     (case iteration env username password k ins w of
        (Continue, ins1, w1) \<Rightarrow> connect_loop env username password (Suc k) ins1 w1
      | (Break, ins1, w1) \<Rightarrow> (None, ins1, w1)
      | (Raise e, ins1, w1) \<Rightarrow> (Some e, ins1, w1))"
  by pat_completeness auto
termination
  by (relation "measure (\<lambda>(env, username, password, k, ins, w). length ins)")
    (auto dest: iteration_length [OF sym])

text \<open>
  The whole script (lines 62 to 149).  The two credential prompts come before
  \<open>ssh_client\<close> is bound (line 70).  \<open>except Exception\<close> takes every exception but
  \<open>KeyboardInterrupt\<close>.  The \<open>finally\<close> block calls \<open>ssh_client.close()\<close> and then prints
  the end message; when the name \<open>ssh_client\<close> was never bound the call raises
  \<open>NameError\<close>, which replaces whatever was pending, and the message is not printed.
  The result is the exception that leaves the script, if any, and the final world.
\<close>

definition handler :: "error \<Rightarrow> world \<Rightarrow> error option \<times> world" where
  "handler e w = (if is_Exception e then (None, emit (Print (ErrorOccurred e)) w) else (Some e, w))"

definition teardown :: "bool \<Rightarrow> error option \<times> world \<Rightarrow> error option \<times> world" where
  "teardown bound pw =
     (case pw of (pending, w) \<Rightarrow>
        if bound then (pending, emit (Print SessionEnded) (emit CloseSSH w))
        else (Some NameError, w))"

definition script :: "env \<Rightarrow> inp list \<Rightarrow> world \<Rightarrow> error option \<times> world" where
  "script env ins w =
     (case read_input PUser ins w of
        (Inl e, ins1, w1) \<Rightarrow> teardown False (handler e w1)
      | (Inr username, ins1, w1) \<Rightarrow>
          (case read_input PPassword ins1 w1 of
             (Inl e, ins2, w2) \<Rightarrow> teardown False (handler e w2)
           | (Inr password, ins2, w2) \<Rightarrow>
               (case connect_loop env username password 0 ins2 w2 of
                  (None, ins3, w3) \<Rightarrow> teardown True (None, w3)
                | (Some e, ins3, w3) \<Rightarrow> teardown True (handler e w3))))"

section \<open>Notions used in the properties\<close>

text \<open>
  \<open>extends w w'\<close>: the trace of \<open>w'\<close> continues the trace of \<open>w\<close>.  \<open>delivered cs\<close>:
  the bytes of the blocks up to the first empty one, which are the bytes that a transfer
  writes.
\<close>

definition extends :: "world \<Rightarrow> world \<Rightarrow> bool" where
  "extends w w' = (\<exists>tr. trace w' = trace w @ tr)"

definition delivered :: "byte list list \<Rightarrow> byte list" where
  "delivered cs = concat (takeWhile (\<lambda>c. c \<noteq> []) cs)"

text \<open>
  \<open>plain_name n\<close>: the name is one path component that names an entry of its directory:
  not empty, without a slash, and neither \<open>.\<close> nor \<open>..\<close>.  The file names of a
  directory listing are of this kind.
\<close>

definition plain_name :: "string \<Rightarrow> bool" where
  "plain_name n = (n \<noteq> [] \<and> CHR ''/'' \<notin> set n \<and> n \<noteq> ''.'' \<and> n \<noteq> ''..'')"

section \<open>Two remote case directories\<close>

text \<open>
  \<open>tree_sftp\<close>: the case directory \<open>/case/1\<close> holds one ordinary subdirectory \<open>sub\<close>
  (mode \<open>0o40755\<close>, that is 16877: type bits \<open>S_IFDIR = 0o40000\<close>, permissions \<open>rwxr-xr-x\<close>),
  which holds the regular file \<open>a.txt\<close> (mode \<open>0o100644\<close>, that is 33188) of three bytes.
  What the server answers when the directory itself is read as if it were a file is the
  parameter \<open>dir_read\<close>.

  \<open>scenario_sftp\<close>: the case directory \<open>/case/00123\<close> holds the files \<open>a.txt\<close> of 500
  bytes and \<open>.sfdcprefix\<close> of 10 bytes, and a subdirectory \<open>logs\<close> whose mode has the bit
  \<open>0o4000\<close> set (\<open>0o44755\<close>, that is 18925) and which is empty.
\<close>

definition mk_item :: "string \<Rightarrow> int \<Rightarrow> int \<Rightarrow> item" where
  "mk_item name mode sz = \<lparr>filename = name, st_mode = mode, st_size = sz\<rparr>"

definition tree_sftp :: "error + byte list list \<Rightarrow> sftp_client" where
  "tree_sftp dir_read =
     \<lparr>listdir_attr = (\<lambda>p.
          if p = ''/case/1'' then Inr [mk_item ''sub'' 16877 4096]
          else if p = ''/case/1/sub'' then Inr [mk_item ''a.txt'' 33188 3]
          else Inl FileNotFoundError),
      listdir = (\<lambda>p.
          if p = ''/case/1'' then Inr [''sub'']
          else if p = ''/case/1/sub'' then Inr [''a.txt'']
          else Inl FileNotFoundError),
      stat = (\<lambda>p.
          if p = ''/case/1'' then Inr (mk_item '''' 16877 4096)
          else if p = ''/case/1/sub'' then Inr (mk_item '''' 16877 4096)
          else if p = ''/case/1/sub/a.txt'' then Inr (mk_item '''' 33188 3)
          else Inl FileNotFoundError),
      read_chunks = (\<lambda>p.
          if p = ''/case/1/sub/a.txt'' then Inr [[1, 2, 3], []]
          else if p = ''/case/1/sub'' then dir_read
          else Inl FileNotFoundError)\<rparr>"

definition tree_local :: world where
  "tree_local = \<lparr>lfs = [''/tmp/1'' \<mapsto> LDir], trace = []\<rparr>"

definition scenario_sftp :: sftp_client where
  "scenario_sftp =
     \<lparr>listdir_attr = (\<lambda>p.
          if p = ''/case/00123''
          then Inr [mk_item ''a.txt'' 33188 500, mk_item ''.sfdcprefix'' 33188 10,
                    mk_item ''logs'' 18925 4096]
          else if p = ''/case/00123/logs'' then Inr []
          else Inl FileNotFoundError),
      listdir = (\<lambda>p.
          if p = ''/case/00123'' then Inr [''a.txt'', ''.sfdcprefix'', ''logs'']
          else if p = ''/case/00123/logs'' then Inr []
          else Inl FileNotFoundError),
      stat = (\<lambda>p.
          if p = ''/case/00123'' then Inr (mk_item '''' 16877 4096)
          else if p = ''/case/00123/a.txt'' then Inr (mk_item '''' 33188 500)
          else if p = ''/case/00123/.sfdcprefix'' then Inr (mk_item '''' 33188 10)
          else if p = ''/case/00123/logs'' then Inr (mk_item '''' 18925 4096)
          else Inl FileNotFoundError),
      read_chunks = (\<lambda>p.
          if p = ''/case/00123/a.txt'' then Inr [replicate 500 65, []]
          else if p = ''/case/00123/.sfdcprefix'' then Inr [replicate 10 35, []]
          else Inl FileNotFoundError)\<rparr>"

definition scenario_local :: world where
  "scenario_local = \<lparr>lfs = [''/tmp/00123'' \<mapsto> LDir], trace = []\<rparr>"

text \<open>The same local directory when an older \<open>a.txt\<close> of two bytes is already there.\<close>

definition occupied_local :: world where
  "occupied_local =
     \<lparr>lfs = [''/tmp/00123'' \<mapsto> LDir, ''/tmp/00123/a.txt'' \<mapsto> LFile [9, 9]], trace = []\<rparr>"

text \<open>
  An environment in which every connection attempt succeeds and the server is
  \<open>scenario_sftp\<close>, and the world at the start of a run on an empty local file system.
\<close>

definition scenario_env :: env where
  "scenario_env =
     \<lparr>connect = (\<lambda>k username password. None),
      open_sftp = Inr scenario_sftp,
      expanduser = (\<lambda>p. p),
      recursion_limit = 1000\<rparr>"

definition start :: world where
  "start = \<lparr>lfs = Map.empty, trace = []\<rparr>"

text \<open>
  The same environment when only the first connection attempt succeeds: every later
  call of \<open>connect\<close> raises \<open>SSHException\<close>.
\<close>

definition flaky_env :: env where
  "flaky_env =
     \<lparr>connect = (\<lambda>k username password. if k = 0 then None else Some SSHException),
      open_sftp = Inr scenario_sftp,
      expanduser = (\<lambda>p. p),
      recursion_limit = 1000\<rparr>"

lemmas walker_eval =
  mk_item_def should_exclude_def exclude_patterns_def path_join_def download_file_def
  single_file_def open_wb_def makedirs_exist_ok_def getfo_def emit_def Let_def format_size_def
  size_loop.simps divide_by_power_def round53_def power_c_def power_labels_def
  print_progress_def write_chunk_def

section \<open>Properties of format\_size\<close>

text \<open>
  \<open>label_rank\<close> reads the table backwards: the index under which a label is stored.
\<close>

definition label_rank :: "string \<Rightarrow> nat option" where
  "label_rank l = map_of (map (\<lambda>(n, label). (label, n)) power_labels) l"

lemma round53_small: "a < 2 ^ 53 \<Longrightarrow> round53 a = a"
  by (simp add: round53_def)

lemma round53_large:
  assumes "2 ^ 53 \<le> a"
  shows "2 ^ 53 \<le> round53 a"
proof -
  have "(0::int) < 2 ^ 53" by simp
  with assms have pos: "0 < a" by linarith
  define s where "s = nat (bitlen a - 53)"
  define q where "q = a div 2 ^ s"
  from bitlen_bounds [OF pos] have lo: "2 ^ nat (bitlen a - 1) \<le> a" and hi: "a < 2 ^ nat (bitlen a)"
    by blast+
  from assms hi have "(2::int) ^ 53 < 2 ^ nat (bitlen a)" by (rule le_less_trans)
  from power_less_imp_less_exp [OF _ this] have "53 < nat (bitlen a)" by simp
  then have L: "nat (bitlen a - 1) = s + 52" by (simp add: s_def)
  from lo have "2 ^ 52 * 2 ^ s \<le> a" by (simp add: L power_add mult.commute)
  then have "(2 ^ 52 * 2 ^ s) div 2 ^ s \<le> a div 2 ^ s" by (rule zdiv_mono1) simp
  then have q52: "2 ^ 52 \<le> q" by (simp add: q_def)
  have s1: "1 \<le> s" using \<open>53 < nat (bitlen a)\<close> by (simp add: s_def)
  then have "(2::int) ^ 1 \<le> 2 ^ s" by (intro power_increasing) simp_all
  then have two: "(2::int) \<le> 2 ^ s" by simp
  have "(2::int) ^ 53 = 2 ^ 52 * 2" by simp
  also have "\<dots> \<le> q * 2 ^ s" using q52 two by (intro mult_mono) simp_all
  finally have a: "2 ^ 53 \<le> q * 2 ^ s" .
  have "q * 2 ^ s \<le> (q + 1) * 2 ^ s" by (simp add: distrib_right)
  with a have b: "2 ^ 53 \<le> (q + 1) * 2 ^ s" by (rule order_trans)
  from assms a b show ?thesis
    by (simp add: round53_def Let_def s_def [symmetric] q_def [symmetric])
qed

lemma float_stop: "f \<le> 1024 \<Longrightarrow> size_loop (PyFloat f) n = Inr (PyFloat f, n)"
  by (simp add: size_loop.simps power_c_def)

lemma float_step: "1024 < f \<Longrightarrow> size_loop (PyFloat f) n = size_loop (PyFloat (f / 1024)) (Suc n)"
  by (subst size_loop.simps) (simp add: power_c_def divide_by_power_def)

lemma pow1024_ge: "(1024 :: rat) \<le> 1024 ^ Suc k"
  by (rule self_le_power) simp_all

lemma float_between:
  "(k = 0 \<or> 1024 ^ k < f) \<Longrightarrow> f \<le> 1024 ^ Suc k \<Longrightarrow>
     size_loop (PyFloat f) n = Inr (PyFloat (f / 1024 ^ k), n + k)"
proof (induction k arbitrary: f n)
  case 0
  then show ?case by (simp add: float_stop)
next
  case (Suc k)
  from Suc.prems have lo: "1024 ^ Suc k < f" by simp
  have gt: "1024 < f" by (rule le_less_trans [OF pow1024_ge lo])
  have a: "k = 0 \<or> 1024 ^ k < f / 1024"
    using lo by (simp add: pos_less_divide_eq mult.commute)
  have b: "f / 1024 \<le> 1024 ^ Suc k"
    using Suc.prems(2) by (simp add: pos_divide_le_eq mult.commute)
  show ?case
    using Suc.IH [OF a b, of "Suc n"] gt by (simp add: float_step mult.commute)
qed

lemma float_exceeds:
  "1024 ^ Suc k < f \<Longrightarrow> \<exists>v m. size_loop (PyFloat f) n = Inr (PyFloat v, m) \<and> n + k < m"
proof (induction "PyFloat f" n arbitrary: f k rule: size_loop.induct)
  case (1 n)
  have gt: "1024 < f" by (rule le_less_trans [OF pow1024_ge "1.prems"])
  then have g: "rat_of_int power_c < num_value (PyFloat f)" by (simp add: power_c_def)
  have d: "divide_by_power (PyFloat f) = Inr (PyFloat (f / 1024))"
    by (simp add: divide_by_power_def power_c_def)
  show ?case
  proof (cases k)
    case 0
    show ?thesis
    proof (cases "f / 1024 \<le> 1024")
      case True
      with gt have "size_loop (PyFloat f) n = Inr (PyFloat (f / 1024), Suc n)"
        by (simp add: float_step float_stop)
      with 0 show ?thesis by (intro exI [of _ "f / 1024"] exI [of _ "Suc n"]) simp
    next
      case False
      then have "1024 ^ Suc 0 < f / 1024" by simp
      from "1.hyps" [OF g d this] gt 0 show ?thesis
        by (auto simp: float_step)
    qed
  next
    case (Suc j)
    with "1.prems" have "1024 ^ Suc j < f / 1024"
      by (simp add: pos_less_divide_eq mult.commute)
    from "1.hyps" [OF g d this] gt Suc show ?thesis
      by (auto simp: float_step)
  qed
qed

lemma int_stop: "a \<le> 1024 \<Longrightarrow> size_loop (PyInt a) n = Inr (PyInt a, n)"
proof -
  assume "a \<le> 1024"
  then have "(of_int a :: rat) \<le> of_int 1024" by (simp only: of_int_le_iff)
  then show ?thesis by (simp add: size_loop.simps power_c_def)
qed

lemma int_step:
  assumes "1024 < a"
  shows "size_loop (PyInt a) n =
     (if 2 ^ 1024 \<le> (of_int (round53 a) :: rat) / 1024 then Inl OverflowError
      else size_loop (PyFloat (of_int (round53 a) / 1024)) (Suc n))"
proof -
  from assms have "(of_int 1024 :: rat) < of_int a" by (simp only: of_int_less_iff)
  then show ?thesis
    by (subst size_loop.simps) (simp add: power_c_def divide_by_power_def Let_def)
qed

lemma int_step_exact:
  assumes "1024 < a" and "a < 2 ^ 53"
  shows "size_loop (PyInt a) n = size_loop (PyFloat (of_int a / 1024)) (Suc n)"
proof -
  from assms(2) have "(of_int a :: rat) < of_int (2 ^ 53)" by (simp only: of_int_less_iff)
  then have "(of_int a :: rat) / 1024 < 2 ^ 1024" by simp
  with assms show ?thesis by (simp add: int_step round53_small)
qed

lemma format_size_small: "B \<le> 1024 \<Longrightarrow> format_size B = Inr (of_int B, '''')"
  by (simp add: format_size_def int_stop power_labels_def)

lemma format_size_unit:
  assumes k: "k = 1 \<or> k = 2 \<or> k = 3" and lo: "1024 ^ k < B" and hi: "B \<le> 1024 ^ Suc k"
  shows "format_size B = (case map_of power_labels k of
           Some label \<Rightarrow> Inr (of_int B / 1024 ^ k, label) | None \<Rightarrow> Inl KeyError)"
proof -
  from k obtain j where j: "k = Suc j" by auto
  have "(1024 :: int) ^ 1 \<le> 1024 ^ k" using k by (intro power_increasing) auto
  with lo have gt: "1024 < B" by simp
  have "(1024 :: int) ^ Suc k \<le> 1024 ^ 4" using k by (intro power_increasing) auto
  with hi have small: "B < 2 ^ 53" by simp
  from lo have "(of_int (1024 ^ k) :: rat) < of_int B" by (simp only: of_int_less_iff)
  then have lo': "(1024 :: rat) ^ Suc j < of_int B" by (simp add: j)
  from hi have "(of_int B :: rat) \<le> of_int (1024 ^ Suc k)" by (simp only: of_int_le_iff)
  then have hi': "(of_int B :: rat) \<le> 1024 ^ Suc (Suc j)" by (simp add: j)
  have a: "j = 0 \<or> (1024 :: rat) ^ j < of_int B / 1024"
    using lo' by (simp add: pos_less_divide_eq mult.commute)
  have b: "(of_int B :: rat) / 1024 \<le> 1024 ^ Suc j"
    using hi' by (simp add: pos_divide_le_eq mult.commute)
  from float_between [OF a b, of 1]
  have "size_loop (PyInt B) 0 = Inr (PyFloat (of_int B / 1024 / 1024 ^ j), Suc j)"
    by (simp add: int_step_exact [OF gt small])
  then show ?thesis by (simp add: format_size_def j mult.commute split: option.splits)
qed

lemma format_size_big:
  assumes "1024 ^ 4 < B"
  shows "format_size B =
     (if 2 ^ 1024 \<le> (of_int (round53 B) :: rat) / 1024 then Inl OverflowError else Inl KeyError)"
proof (cases "2 ^ 1024 \<le> (of_int (round53 B) :: rat) / 1024")
  case True
  from assms have "1024 < B" by simp
  with True show ?thesis by (simp add: format_size_def int_step)
next
  case False
  from assms have gt: "1024 < B" by simp
  have "1024 ^ 4 < round53 B"
  proof (cases "B < 2 ^ 53")
    case True
    with assms show ?thesis by (simp add: round53_small)
  next
    case False
    then have "2 ^ 53 \<le> round53 B" by (intro round53_large) simp
    then show ?thesis by simp
  qed
  then have "(of_int (1024 ^ 4) :: rat) < of_int (round53 B)" by (simp only: of_int_less_iff)
  then have "(1024 :: rat) ^ Suc 2 < of_int (round53 B) / 1024" by simp
  from float_exceeds [OF this, of 1] obtain v m where
    r: "size_loop (PyFloat (of_int (round53 B) / 1024)) (Suc 0) = Inr (PyFloat v, m)" and m: "3 < m"
    by auto
  from m have "map_of power_labels m = None" by (simp add: power_labels_def)
  with False gt r show ?thesis by (simp add: format_size_def int_step)
qed

lemma format_size_returns_iff: "(\<exists>v l. format_size B = Inr (v, l)) = (B \<le> 1024 ^ 4)"
proof
  assume "\<exists>v l. format_size B = Inr (v, l)"
  then show "B \<le> 1024 ^ 4"
    by (rule contrapos_pp) (auto simp: format_size_big)
next
  assume le: "B \<le> 1024 ^ 4"
  show "\<exists>v l. format_size B = Inr (v, l)"
  proof (cases "B \<le> 1024")
    case True
    then show ?thesis by (simp add: format_size_small)
  next
    case False
    then have b1: "1024 ^ 1 < B" by simp
    show ?thesis
    proof (cases "B \<le> 1024 ^ Suc 1")
      case True
      from format_size_unit [of 1 B, OF _ b1 True] have "format_size B = Inr (of_int B / 1024 ^ 1, ''KB'')"
        by (simp add: power_labels_def)
      then show ?thesis by blast
    next
      case False
      then have b2: "1024 ^ 2 < B" by simp
      show ?thesis
      proof (cases "B \<le> 1024 ^ Suc 2")
        case True
        from format_size_unit [of 2 B, OF _ b2 True] have "format_size B = Inr (of_int B / 1024 ^ 2, ''MB'')"
          by (simp add: power_labels_def)
        then show ?thesis by blast
      next
        case False
        then have b3: "1024 ^ 3 < B" by simp
        from le have "B \<le> 1024 ^ Suc 3" by simp
        from format_size_unit [of 3 B, OF _ b3 this] have "format_size B = Inr (of_int B / 1024 ^ 3, ''GB'')"
          by (simp add: power_labels_def)
        then show ?thesis by blast
      qed
    qed
  qed
qed

lemma label_rank_lookup: "map_of power_labels n = Some l \<Longrightarrow> label_rank l = Some n"
  by (auto simp: label_rank_def power_labels_def split: if_splits)

lemma labels_dom: "dom (map_of power_labels) = {0, 1, 2, 3}"
  by (auto simp: power_labels_def dom_def split: if_splits)

lemma round53_upper:
  assumes "0 \<le> a"
  shows "round53 a \<le> 2 * a"
proof (cases "a < 2 ^ 53")
  case True
  with assms show ?thesis by (simp add: round53_small)
next
  case False
  then have big: "2 ^ 53 \<le> a" by simp
  have "(0::int) < 2 ^ 53" by simp
  with big have pos: "0 < a" by linarith
  define s where "s = nat (bitlen a - 53)"
  define q where "q = a div 2 ^ s"
  from bitlen_bounds [OF pos] have lo: "2 ^ nat (bitlen a - 1) \<le> a" by blast
  have "s \<le> nat (bitlen a - 1)" by (simp add: s_def)
  then have "(2::int) ^ s \<le> 2 ^ nat (bitlen a - 1)" by (intro power_increasing) simp_all
  from this lo have s_le: "2 ^ s \<le> a" by (rule order_trans)
  have "q * 2 ^ s + a mod 2 ^ s = a" unfolding q_def by (rule div_mult_mod_eq)
  moreover have "0 \<le> a mod 2 ^ s" by simp
  ultimately have "q * 2 ^ s \<le> a" by linarith
  then have a: "q * 2 ^ s \<le> 2 * a" using pos by simp
  have "(q + 1) * 2 ^ s = q * 2 ^ s + 2 ^ s" by (simp add: distrib_right)
  also have "\<dots> \<le> a + a" using \<open>q * 2 ^ s \<le> a\<close> s_le by (rule add_mono)
  finally have b: "(q + 1) * 2 ^ s \<le> 2 * a" by simp
  from False a b show ?thesis
    by (simp add: round53_def Let_def s_def [symmetric] q_def [symmetric])
qed

lemma format_size_KeyError_64:
  assumes "1024 ^ 4 < B" and "B < 2 ^ 64"
  shows "format_size B = Inl KeyError"
proof -
  from assms(1) have "0 \<le> B" by simp
  from round53_upper [OF this] assms(2) have "round53 B \<le> 2 ^ 65" by simp
  then have "(of_int (round53 B) :: rat) \<le> of_int (2 ^ 65)" by (simp only: of_int_le_iff)
  then have "(of_int (round53 B) :: rat) / 1024 < 2 ^ 1024" by simp
  with assms(1) show ?thesis by (simp add: format_size_big)
qed

lemma format_size_shape:
  assumes "B \<le> 1024 ^ 4"
  shows "\<exists>n l. (n = 0 \<and> B \<le> 1024 \<or> 0 < n \<and> 1024 ^ n < B \<and> B \<le> 1024 ^ Suc n)
           \<and> map_of power_labels n = Some l
           \<and> format_size B = Inr (of_int B / 1024 ^ n, l)"
proof (cases "B \<le> 1024")
  case True
  then have "format_size B = Inr (of_int B / 1024 ^ 0, '''')" by (simp add: format_size_small)
  moreover have "map_of power_labels 0 = Some ''''" by (simp add: power_labels_def)
  ultimately show ?thesis using True by blast
next
  case False
  then have b1: "1024 ^ 1 < B" by simp
  show ?thesis
  proof (cases "B \<le> 1024 ^ Suc 1")
    case True
    from format_size_unit [of 1 B, OF _ b1 True]
    have "format_size B = Inr (of_int B / 1024 ^ 1, ''KB'')" by (simp add: power_labels_def)
    moreover have "map_of power_labels 1 = Some ''KB''" by (simp add: power_labels_def)
    moreover have "(0::nat) < 1" by simp
    ultimately show ?thesis using b1 True by blast
  next
    case False
    then have b2: "1024 ^ 2 < B" by simp
    show ?thesis
    proof (cases "B \<le> 1024 ^ Suc 2")
      case True
      from format_size_unit [of 2 B, OF _ b2 True]
      have "format_size B = Inr (of_int B / 1024 ^ 2, ''MB'')" by (simp add: power_labels_def)
      moreover have "map_of power_labels 2 = Some ''MB''" by (simp add: power_labels_def)
      moreover have "(0::nat) < 2" by simp
      ultimately show ?thesis using b2 True by blast
    next
      case False
      then have b3: "1024 ^ 3 < B" by simp
      from assms have h3: "B \<le> 1024 ^ Suc 3" by simp
      from format_size_unit [of 3 B, OF _ b3 h3]
      have "format_size B = Inr (of_int B / 1024 ^ 3, ''GB'')" by (simp add: power_labels_def)
      moreover have "map_of power_labels 3 = Some ''GB''" by (simp add: power_labels_def)
      moreover have "(0::nat) < 3" by simp
      ultimately show ?thesis using b3 h3 by blast
    qed
  qed
qed

lemma format_size_at_threshold:
  "k \<le> 3 \<Longrightarrow> \<exists>l. map_of power_labels k = Some l \<and> format_size (1024 ^ Suc k) = Inr (1024, l)"
proof -
  assume k: "k \<le> 3"
  show ?thesis
  proof (cases k)
    case 0
    then show ?thesis by (simp add: format_size_small power_labels_def)
  next
    case (Suc j)
    with k have "k = 1 \<or> k = 2 \<or> k = 3" by auto
    from format_size_unit [OF this, of "1024 ^ Suc k"] this show ?thesis
      by (auto simp: power_labels_def)
  qed
qed

text \<open>
  Claim C3.  \<open>format_size\<close> divides by 1024 while the value is strictly greater than
  1024.  A byte count that is exactly a power of 1024 is therefore not promoted: 1024
  bytes stay without unit, \<open>1024 ^ 2\<close> stays KB, \<open>1024 ^ 3\<close> stays MB and \<open>1024 ^ 4\<close> stays
  GB, each with the value 1024, while one byte more is labelled with the next unit.
  Whenever a string is returned for a byte count \<open>B\<close>, its label is the table's entry
  for the number \<open>n\<close> of divisions, its value is \<open>B / 1024 ^ n\<close>, and \<open>n\<close> is 0 with
  \<open>B \<le> 1024\<close> or positive with \<open>1024 ^ n < B \<le> 1024 ^ (n + 1)\<close>.  The label never moves
  to a lower power of 1024 as the byte count grows: when the larger of two byte counts
  gets a label, the smaller one gets a label of the same or a lower unit.
\<close>

theorem format_size_strict_threshold_and_monotone:
  "format_size 1024 = Inr (1024, '''')
   \<and> format_size 1025 = Inr (1025 / 1024, ''KB'')
   \<and> format_size (1024 ^ 2) = Inr (1024, ''KB'')
   \<and> format_size (1024 ^ 2 + 1) = Inr ((1024 ^ 2 + 1) / 1024 ^ 2, ''MB'')
   \<and> format_size (1024 ^ 3) = Inr (1024, ''MB'')
   \<and> format_size (1024 ^ 3 + 1) = Inr ((1024 ^ 3 + 1) / 1024 ^ 3, ''GB'')
   \<and> format_size (1024 ^ 4) = Inr (1024, ''GB'')
   \<and> (\<forall>B v l. format_size B = Inr (v, l) \<longrightarrow>
          (\<exists>n. label_rank l = Some n \<and> v = of_int B / 1024 ^ n
             \<and> (n = 0 \<and> B \<le> 1024 \<or> 0 < n \<and> 1024 ^ n < B \<and> B \<le> 1024 ^ Suc n)))
   \<and> (\<forall>B B' v' l'. B \<le> B' \<and> format_size B' = Inr (v', l') \<longrightarrow>
          (\<exists>v l i j. format_size B = Inr (v, l) \<and> label_rank l = Some i
             \<and> label_rank l' = Some j \<and> i \<le> j))"
proof (intro conjI allI impI)
  show "format_size 1024 = Inr (1024, '''')" by (simp add: format_size_small)
  show "format_size 1025 = Inr (1025 / 1024, ''KB'')"
    using format_size_unit [of 1 1025] by (simp add: power_labels_def)
  show "format_size (1024 ^ 2) = Inr (1024, ''KB'')"
    using format_size_unit [of 1 "1024 ^ 2"] by (simp add: power_labels_def)
  show "format_size (1024 ^ 2 + 1) = Inr ((1024 ^ 2 + 1) / 1024 ^ 2, ''MB'')"
    using format_size_unit [of 2 "1024 ^ 2 + 1"] by (simp add: power_labels_def)
  show "format_size (1024 ^ 3) = Inr (1024, ''MB'')"
    using format_size_unit [of 2 "1024 ^ 3"] by (simp add: power_labels_def)
  show "format_size (1024 ^ 3 + 1) = Inr ((1024 ^ 3 + 1) / 1024 ^ 3, ''GB'')"
    using format_size_unit [of 3 "1024 ^ 3 + 1"] by (simp add: power_labels_def)
  show "format_size (1024 ^ 4) = Inr (1024, ''GB'')"
    using format_size_unit [of 3 "1024 ^ 4"] by (simp add: power_labels_def)
next
  fix B v l
  assume ok: "format_size B = Inr (v, l)"
  then have "B \<le> 1024 ^ 4" using format_size_returns_iff [of B] by blast
  from format_size_shape [OF this] ok obtain n where
    "n = 0 \<and> B \<le> 1024 \<or> 0 < n \<and> 1024 ^ n < B \<and> B \<le> 1024 ^ Suc n"
    "map_of power_labels n = Some l" "v = of_int B / 1024 ^ n"
    by auto
  then show "\<exists>n. label_rank l = Some n \<and> v = of_int B / 1024 ^ n
             \<and> (n = 0 \<and> B \<le> 1024 \<or> 0 < n \<and> 1024 ^ n < B \<and> B \<le> 1024 ^ Suc n)"
    by (blast dest: label_rank_lookup)
next
  fix B B' :: int and v' l'
  assume h: "B \<le> B' \<and> format_size B' = Inr (v', l')"
  then have le: "B \<le> B'" and ok': "format_size B' = Inr (v', l')" by blast+
  from ok' have b': "B' \<le> 1024 ^ 4" using format_size_returns_iff [of B'] by blast
  with le have b: "B \<le> 1024 ^ 4" by simp
  from format_size_shape [OF b'] ok' obtain j where
    j: "j = 0 \<and> B' \<le> 1024 \<or> 0 < j \<and> 1024 ^ j < B' \<and> B' \<le> 1024 ^ Suc j"
    and lj: "map_of power_labels j = Some l'" by auto
  from format_size_shape [OF b] obtain i l where
    i: "i = 0 \<and> B \<le> 1024 \<or> 0 < i \<and> 1024 ^ i < B \<and> B \<le> 1024 ^ Suc i"
    and li: "map_of power_labels i = Some l"
    and fi: "format_size B = Inr (of_int B / 1024 ^ i, l)" by blast
  from j have up: "B' \<le> 1024 ^ Suc j" by auto
  have "i \<le> j"
  proof (rule ccontr)
    assume "\<not> i \<le> j"
    then have ij: "Suc j \<le> i" by simp
    then have "0 < i" by simp
    with i have "1024 ^ i < B" by simp
    moreover have "(1024 :: int) ^ Suc j \<le> 1024 ^ i" using ij by (intro power_increasing) simp_all
    ultimately show False using le up by simp
  qed
  with fi li lj show "\<exists>v l i j. format_size B = Inr (v, l) \<and> label_rank l = Some i
             \<and> label_rank l' = Some j \<and> i \<le> j"
    by (blast dest: label_rank_lookup)
qed

text \<open>
  The theorem at 1 MiB and at one byte more: the first is 1024.00 KB, the second is in MB.
\<close>

theorem format_size_strict_threshold_and_monotone_witness:
  "(1048576 :: int) \<le> 1048577
   \<and> format_size 1048576 = Inr (1024, ''KB'')
   \<and> format_size 1048577 = Inr (1048577 / 1048576, ''MB'')
   \<and> (\<exists>n. label_rank ''KB'' = Some n \<and> (1024 :: rat) = of_int 1048576 / 1024 ^ n
         \<and> (n = 0 \<and> (1048576 :: int) \<le> 1024 \<or> 0 < n \<and> 1024 ^ n < (1048576 :: int) \<and> (1048576 :: int) \<le> 1024 ^ Suc n))
   \<and> (\<exists>v l i j. format_size 1048576 = Inr (v, l) \<and> label_rank l = Some i
         \<and> label_rank ''MB'' = Some j \<and> i \<le> j)"
proof -
  note main = format_size_strict_threshold_and_monotone
  from main have a: "format_size 1048577 = Inr (1048577 / 1048576, ''MB'')" by simp
  from main have b: "format_size 1048576 = Inr (1024, ''KB'')" by simp
  have c: "(1048576 :: int) \<le> 1048577" by simp
  from main have
    "\<forall>B v l. format_size B = Inr (v, l) \<longrightarrow>
          (\<exists>n. label_rank l = Some n \<and> v = of_int B / 1024 ^ n
             \<and> (n = 0 \<and> B \<le> 1024 \<or> 0 < n \<and> 1024 ^ n < B \<and> B \<le> 1024 ^ Suc n))" by blast
  with b have d: "\<exists>n. label_rank ''KB'' = Some n \<and> (1024 :: rat) = of_int 1048576 / 1024 ^ n
         \<and> (n = 0 \<and> (1048576 :: int) \<le> 1024 \<or> 0 < n \<and> 1024 ^ n < (1048576 :: int) \<and> (1048576 :: int) \<le> 1024 ^ Suc n)"
    by blast
  from main have
    "\<forall>B B' v' l'. B \<le> B' \<and> format_size B' = Inr (v', l') \<longrightarrow>
       (\<exists>v l i j. format_size B = Inr (v, l) \<and> label_rank l = Some i \<and> label_rank l' = Some j \<and> i \<le> j)"
    by blast
  with c a have f: "\<exists>v l i j. format_size 1048576 = Inr (v, l) \<and> label_rank l = Some i
         \<and> label_rank ''MB'' = Some j \<and> i \<le> j" by blast
  from a b c d f show ?thesis by blast
qed

text \<open>
  Claim C4.  The unit table of \<open>format_size\<close> has exactly the keys 0 to 3, with the
  labels (none), KB, MB and GB; there is no entry for TB or beyond.  \<open>format_size\<close>
  returns a labelled string exactly for the byte counts up to \<open>1024 ^ 4\<close>.  For every
  byte count above \<open>1024 ^ 4\<close> it raises: the loop runs at least a fourth time and the
  lookup of the label raises \<open>KeyError\<close>, for every count that a 64-bit size field can
  hold and beyond, as long as the first division stays in the range of a float; an int
  beyond that range makes the first division raise \<open>OverflowError\<close> instead.
\<close>

theorem format_size_label_table_stops_at_GB:
  "map_of power_labels = [0 \<mapsto> '''', 1 \<mapsto> ''KB'', 2 \<mapsto> ''MB'', 3 \<mapsto> ''GB'']
   \<and> dom (map_of power_labels) = {0, 1, 2, 3}
   \<and> (\<forall>B. (\<exists>v l. format_size B = Inr (v, l)) = (B \<le> 1024 ^ 4))
   \<and> (\<forall>B. (format_size B = Inl KeyError \<or> format_size B = Inl OverflowError) = (1024 ^ 4 < B))
   \<and> (\<forall>B. (format_size B = Inl KeyError)
            = (1024 ^ 4 < B \<and> (of_int (round53 B) :: rat) / 1024 < 2 ^ 1024))
   \<and> (\<forall>B. 1024 ^ 4 < B \<and> B < 2 ^ 64 \<longrightarrow> format_size B = Inl KeyError)"
proof (intro conjI allI impI)
  show "map_of power_labels = [0 \<mapsto> '''', 1 \<mapsto> ''KB'', 2 \<mapsto> ''MB'', 3 \<mapsto> ''GB'']"
    by (auto simp: power_labels_def)
  show "dom (map_of power_labels) = {0, 1, 2, 3}" by (rule labels_dom)
next
  fix B
  show r: "(\<exists>v l. format_size B = Inr (v, l)) = (B \<le> 1024 ^ 4)" by (rule format_size_returns_iff)
  show "(format_size B = Inl KeyError \<or> format_size B = Inl OverflowError) = (1024 ^ 4 < B)"
  proof (cases "1024 ^ 4 < B")
    case True
    then show ?thesis by (simp add: format_size_big)
  next
    case False
    then have "B \<le> 1024 ^ 4" by simp
    with r obtain v l where "format_size B = Inr (v, l)" by blast
    with False show ?thesis by simp
  qed
  show "(format_size B = Inl KeyError)
            = (1024 ^ 4 < B \<and> (of_int (round53 B) :: rat) / 1024 < 2 ^ 1024)"
  proof (cases "1024 ^ 4 < B")
    case True
    then show ?thesis by (simp add: format_size_big not_le)
  next
    case False
    then have "B \<le> 1024 ^ 4" by simp
    with r obtain v l where "format_size B = Inr (v, l)" by blast
    with False show ?thesis by simp
  qed
next
  fix B :: int
  assume "1024 ^ 4 < B \<and> B < 2 ^ 64"
  then show "format_size B = Inl KeyError" by (blast intro: format_size_KeyError_64)
qed

text \<open>
  The theorem at 2 TiB.
\<close>

theorem format_size_label_table_stops_at_GB_witness:
  "(1024 :: int) ^ 4 < 2 * 1024 ^ 4 \<and> (2 * 1024 ^ 4 :: int) < 2 ^ 64
   \<and> format_size (2 * 1024 ^ 4) = Inl KeyError"
proof -
  have h: "(1024 :: int) ^ 4 < 2 * 1024 ^ 4 \<and> (2 * 1024 ^ 4 :: int) < 2 ^ 64" by simp
  from format_size_label_table_stops_at_GB have
    "\<forall>B. 1024 ^ 4 < B \<and> B < 2 ^ 64 \<longrightarrow> format_size B = Inl KeyError" by blast
  with h have "format_size (2 * 1024 ^ 4) = Inl KeyError" by blast
  with h show ?thesis by blast
qed

section \<open>Properties of print\_progress\<close>

text \<open>
  Claim C10.  \<open>print_progress\<close> divides the transferred count by the remote file size
  without a guard: when the remote size is zero, every call of the callback, whatever
  its other arguments and whatever the state, raises \<open>ZeroDivisionError\<close> and prints
  nothing.
\<close>

theorem print_progress_zero_size_raises:
  "print_progress transferred tot 0 w = (Inl ZeroDivisionError, w)"
  by (simp add: print_progress_def)

section \<open>Properties of the walker\<close>

subsection \<open>The trace only grows\<close>

lemma trace_emit [simp]: "trace (emit e w) = trace w @ [e]"
  by (simp add: emit_def)

lemma lfs_emit [simp]: "lfs (emit e w) = lfs w"
  by (simp add: emit_def)

lemma extends_refl [simp]: "extends w w"
  by (simp add: extends_def)

lemma extends_trans: "extends w w1 \<Longrightarrow> extends w1 w2 \<Longrightarrow> extends w w2"
  by (auto simp: extends_def)

lemma extends_emit [simp]: "extends w (emit e w)"
  by (simp add: extends_def)

lemma extends_emit_left: "extends (emit e w) w' \<Longrightarrow> \<exists>tr. trace w' = trace w @ e # tr"
  by (auto simp: extends_def)

lemma extends_lfs_update [simp]: "extends w (w'\<lparr>lfs := m\<rparr>) = extends w w'"
  by (simp add: extends_def)

lemma trace_write_chunk [simp]: "trace (write_chunk p c w) = trace w"
  by (simp add: write_chunk_def split: option.splits lnode.splits)

lemma extends_write_chunk [simp]: "extends w (write_chunk p c w)"
  by (simp add: extends_def)

lemma print_progress_extends: "print_progress x y rs w = (r, w') \<Longrightarrow> extends w w' \<and> lfs w' = lfs w"
  by (auto simp: print_progress_def Let_def split: if_splits sum.splits)

lemma transfer_extends:
  "transfer (\<lambda>x y. print_progress x y rs) fs lp cs sofar w = (r, w') \<Longrightarrow> extends w w'"
proof (induction cs arbitrary: sofar w)
  case Nil
  then show ?case by simp
next
  case (Cons c cs)
  show ?case
  proof (cases "c = []")
    case True
    with Cons.prems show ?thesis by (auto simp: Let_def)
  next
    case False
    obtain r1 w1 where cb: "print_progress (sofar + int (length c)) fs rs (write_chunk lp c w) = (r1, w1)"
      by (cases "print_progress (sofar + int (length c)) fs rs (write_chunk lp c w)")
    from print_progress_extends [OF cb] have e1: "extends w w1"
      by (auto intro: extends_trans [OF extends_write_chunk])
    show ?thesis
    proof (cases r1)
      case (Inl e)
      with Cons.prems False cb e1 show ?thesis by (simp add: Let_def)
    next
      case (Inr u)
      with Cons.prems False cb have "transfer (\<lambda>x y. print_progress x y rs) fs lp cs (sofar + int (length c)) w1 = (r, w')"
        by (simp add: Let_def)
      from Cons.IH [OF this] e1 show ?thesis by (rule extends_trans [rotated])
    qed
  qed
qed

lemma getfo_extends:
  "getfo sftp rp lp (\<lambda>x y. print_progress x y rs) w = (r, w') \<Longrightarrow> extends (emit (Getfo rp) w) w'"
  by (auto simp: getfo_def Let_def split: sum.splits dest: transfer_extends)

lemma open_wb_extends: "open_wb p w = (r, w') \<Longrightarrow> extends (emit (OpenWb p) w) w'"
  by (auto simp: open_wb_def Let_def split: option.splits lnode.splits)

lemma makedirs_exist_ok_trace: "makedirs_exist_ok p w = (r, w') \<Longrightarrow> trace w' = trace w @ [Makedirs p]"
  by (auto simp: makedirs_exist_ok_def Let_def split: option.splits lnode.splits)

lemma download_file_extends:
  assumes "download_file sftp it rp lp w = (r, w')"
  shows "extends w w'"
proof (cases "format_size (st_size it)")
  case (Inl e)
  with assms show ?thesis by (simp add: download_file_def)
next
  case (Inr label)
  let ?w1 = "emit (Print (Downloading (filename it) label)) w"
  obtain r2 w2 where o: "open_wb lp ?w1 = (r2, w2)" by (cases "open_wb lp ?w1")
  from open_wb_extends [OF o] have e2: "extends w w2"
    by (auto intro: extends_trans [OF extends_emit] extends_trans)
  show ?thesis
  proof (cases r2)
    case (Inl e)
    with assms Inr o e2 show ?thesis by (simp add: download_file_def)
  next
    case r2: (Inr u)
    obtain r3 w3 where g: "getfo sftp rp lp (\<lambda>x y. print_progress x y (st_size it)) w2 = (r3, w3)"
      by (cases "getfo sftp rp lp (\<lambda>x y. print_progress x y (st_size it)) w2")
    from getfo_extends [OF g] e2 have e3: "extends w w3"
      by (auto intro: extends_trans [OF extends_emit] extends_trans)
    from assms Inr o r2 g e3 show ?thesis
      by (cases r3) (auto simp: download_file_def intro: extends_trans)
  qed
qed

lemma download_file_announces:
  assumes "download_file sftp it rp lp w = (r, w')" and "format_size (st_size it) = Inr label"
  shows "\<exists>tr. trace w' = trace w @ Print (Downloading (filename it) label) # OpenWb lp # tr"
proof -
  let ?w1 = "emit (Print (Downloading (filename it) label)) w"
  obtain r2 w2 where o: "open_wb lp ?w1 = (r2, w2)" by (cases "open_wb lp ?w1")
  from open_wb_extends [OF o] obtain t2 where t2: "trace w2 = trace w @ Print (Downloading (filename it) label) # OpenWb lp # t2"
    by (auto simp: extends_def)
  show ?thesis
  proof (cases r2)
    case (Inl e)
    with assms o t2 show ?thesis by (simp add: download_file_def)
  next
    case r2: (Inr u)
    obtain r3 w3 where g: "getfo sftp rp lp (\<lambda>x y. print_progress x y (st_size it)) w2 = (r3, w3)"
      by (cases "getfo sftp rp lp (\<lambda>x y. print_progress x y (st_size it)) w2")
    from getfo_extends [OF g] obtain t3 where "trace w3 = trace w2 @ Getfo rp # t3"
      by (auto simp: extends_def)
    with t2 have t3: "trace w3 = trace w @ Print (Downloading (filename it) label) # OpenWb lp # (t2 @ Getfo rp # t3)"
      by simp
    from assms o r2 g t3 show ?thesis
      by (cases r3) (auto simp: download_file_def assms(2))
  qed
qed

lemma walker_extends:
  "(\<forall>r w'. download_directory sftp d rd ld w = (r, w') \<longrightarrow> extends w w')"
  "(\<forall>r w'. download_items sftp d rd ld its w = (r, w') \<longrightarrow> extends w w')"
proof (induction sftp d rd ld w and sftp d rd ld its w rule: download_directory_download_items.induct)
  case (1 sftp remote_dir local_dir w)
  then show ?case by simp
next
  case (2 sftp depth remote_dir local_dir w)
  show ?case
  proof (cases "listdir_attr sftp remote_dir")
    case (Inl e)
    then show ?thesis by (auto simp: Let_def)
  next
    case (Inr items)
    from "2.IH" [OF refl Inr] Inr show ?thesis
      by (auto simp: Let_def intro: extends_trans [OF extends_emit])
  qed
next
  case (3 sftp depth remote_dir local_dir w)
  then show ?case by simp
next
  case (4 sftp depth remote_dir local_dir it rest w)
  let ?rp = "path_join remote_dir (filename it)" and ?lp = "path_join local_dir (filename it)"
  show ?case
  proof (cases "should_exclude (filename it)")
    case True
    with 4 show ?thesis by simp
  next
    case ne: False
    show ?thesis
    proof (cases "st_mode it AND 2048 \<noteq> 0")
      case dir: True
      obtain r1 w1 where m: "makedirs_exist_ok ?lp w = (r1, w1)" by (cases "makedirs_exist_ok ?lp w")
      from makedirs_exist_ok_trace [OF m] have e1: "extends w w1" by (simp add: extends_def)
      show ?thesis
      proof (cases r1)
        case (Inl e)
        with ne dir m e1 show ?thesis by (simp add: Let_def)
      next
        case r1: (Inr u)
        obtain r2 w2 where dd: "download_directory sftp depth ?rp ?lp w1 = (r2, w2)"
          by (cases "download_directory sftp depth ?rp ?lp w1")
        from "4.IH"(1) [OF ne refl refl dir m [symmetric] r1] dd have "extends w1 w2" by simp
        with e1 have e2: "extends w w2" by (rule extends_trans)
        show ?thesis
        proof (cases r2)
          case (Inl e)
          with ne dir m r1 dd e2 show ?thesis by (simp add: Let_def)
        next
          case r2: (Inr u2)
          from "4.IH"(2) [OF ne refl refl dir m [symmetric] r1 dd [symmetric] r2]
          have "\<forall>r w'. download_items sftp depth remote_dir local_dir rest w2 = (r, w') \<longrightarrow> extends w2 w'" .
          with ne dir m r1 dd r2 e2 show ?thesis by (auto simp: Let_def intro: extends_trans)
        qed
      qed
    next
      case nodir: False
      obtain r1 w1 where df: "download_file sftp it ?rp ?lp w = (r1, w1)"
        by (cases "download_file sftp it ?rp ?lp w")
      from download_file_extends [OF df] have e1: "extends w w1" .
      show ?thesis
      proof (cases r1)
        case (Inl e)
        with ne nodir df e1 show ?thesis by (simp add: Let_def)
      next
        case r1: (Inr u)
        from "4.IH"(3) [OF ne refl refl nodir df [symmetric] r1]
        have "\<forall>r w'. download_items sftp depth remote_dir local_dir rest w1 = (r, w') \<longrightarrow> extends w1 w'" .
        with ne nodir df r1 e1 show ?thesis by (auto simp: Let_def intro: extends_trans)
      qed
    qed
  qed
qed

lemma download_items_excluded:
  "should_exclude (filename it) \<Longrightarrow>
     download_items sftp depth rd ld (it # rest) w = download_items sftp depth rd ld rest w"
  by simp

lemma download_items_dir_trace:
  assumes ne: "\<not> should_exclude (filename it)" and dir: "st_mode it AND 2048 \<noteq> 0"
  shows "\<exists>tr. trace (snd (download_items sftp depth rd ld (it # rest) w))
            = trace w @ Makedirs (path_join ld (filename it)) # tr"
proof -
  let ?rp = "path_join rd (filename it)" and ?lp = "path_join ld (filename it)"
  obtain r1 w1 where m: "makedirs_exist_ok ?lp w = (r1, w1)" by (cases "makedirs_exist_ok ?lp w")
  from makedirs_exist_ok_trace [OF m] have t1: "trace w1 = trace w @ [Makedirs ?lp]" .
  show ?thesis
  proof (cases r1)
    case (Inl e)
    with ne dir m t1 show ?thesis by (simp add: Let_def)
  next
    case r1: (Inr u)
    obtain r2 w2 where dd: "download_directory sftp depth ?rp ?lp w1 = (r2, w2)"
      by (cases "download_directory sftp depth ?rp ?lp w1")
    from walker_extends(1) dd have e2: "extends w1 w2" by blast
    show ?thesis
    proof (cases r2)
      case (Inl e)
      with ne dir m r1 dd e2 t1 show ?thesis by (auto simp: Let_def extends_def)
    next
      case r2: (Inr u2)
      obtain r3 w3 where di: "download_items sftp depth rd ld rest w2 = (r3, w3)"
        by (cases "download_items sftp depth rd ld rest w2")
      from walker_extends(2) di have "extends w2 w3" by blast
      with e2 have "extends w1 w3" by (rule extends_trans)
      with ne dir m r1 dd r2 di t1 show ?thesis by (auto simp: Let_def extends_def)
    qed
  qed
qed

lemma download_items_recurses:
  assumes ne: "\<not> should_exclude (filename it)" and dir: "st_mode it AND 2048 \<noteq> 0"
    and free: "\<forall>c. lfs w (path_join ld (filename it)) \<noteq> Some (LFile c)"
  shows "\<exists>tr. trace (snd (download_items sftp (Suc d) rd ld (it # rest) w))
            = trace w @ Makedirs (path_join ld (filename it)) # ListdirAttr (path_join rd (filename it)) # tr"
proof -
  let ?rp = "path_join rd (filename it)" and ?lp = "path_join ld (filename it)"
  obtain r1 w1 where m: "makedirs_exist_ok ?lp w = (r1, w1)" by (cases "makedirs_exist_ok ?lp w")
  from makedirs_exist_ok_trace [OF m] have t1: "trace w1 = trace w @ [Makedirs ?lp]" .
  from m free have r1: "r1 = Inr ()"
    by (auto simp: makedirs_exist_ok_def Let_def split: option.splits lnode.splits)
  obtain r2 w2 where dd: "download_directory sftp (Suc d) ?rp ?lp w1 = (r2, w2)"
    by (cases "download_directory sftp (Suc d) ?rp ?lp w1")
  have e2: "\<exists>tr. trace w2 = trace w1 @ ListdirAttr ?rp # tr"
  proof (cases "listdir_attr sftp ?rp")
    case (Inl e)
    with dd show ?thesis by (auto simp: Let_def)
  next
    case (Inr items)
    with dd have "download_items sftp d ?rp ?lp items (emit (ListdirAttr ?rp) w1) = (r2, w2)"
      by (simp add: Let_def)
    with walker_extends(2) have "extends (emit (ListdirAttr ?rp) w1) w2" by blast
    then show ?thesis by (rule extends_emit_left)
  qed
  show ?thesis
  proof (cases r2)
    case (Inl e)
    with ne dir m r1 dd e2 t1 show ?thesis by (auto simp: Let_def)
  next
    case r2: (Inr u2)
    obtain r3 w3 where di: "download_items sftp (Suc d) rd ld rest w2 = (r3, w3)"
      by (cases "download_items sftp (Suc d) rd ld rest w2")
    from walker_extends(2) di have "extends w2 w3" by blast
    with ne dir m r1 dd r2 di t1 e2 show ?thesis by (auto simp: Let_def extends_def)
  qed
qed

lemma download_items_file_step:
  assumes ne: "\<not> should_exclude (filename it)" and nodir: "st_mode it AND 2048 = 0"
  shows "download_items sftp depth rd ld (it # rest) w =
     (case download_file sftp it (path_join rd (filename it)) (path_join ld (filename it)) w of
        (Inl e, w1) \<Rightarrow> (Inl e, w1)
      | (Inr u, w1) \<Rightarrow> download_items sftp depth rd ld rest w1)"
  using ne nodir by (simp add: Let_def)

lemma download_file_calls_getfo:
  assumes "download_file sftp it rp lp w = (r, w')" and "format_size (st_size it) = Inr label"
    and "lfs w lp \<noteq> Some LDir"
  shows "\<exists>tr. trace w' = trace w @ Print (Downloading (filename it) label) # OpenWb lp # Getfo rp # tr"
proof -
  let ?w1 = "emit (Print (Downloading (filename it) label)) w"
  let ?w2 = "(emit (OpenWb lp) ?w1)\<lparr>lfs := (lfs w)(lp \<mapsto> LFile [])\<rparr>"
  from assms(3) have o: "open_wb lp ?w1 = (Inr (), ?w2)"
    by (auto simp: open_wb_def Let_def split: option.splits lnode.splits)
  obtain r3 w3 where g: "getfo sftp rp lp (\<lambda>x y. print_progress x y (st_size it)) ?w2 = (r3, w3)"
    by (cases "getfo sftp rp lp (\<lambda>x y. print_progress x y (st_size it)) ?w2")
  from getfo_extends [OF g] obtain t3 where "trace w3 = trace ?w2 @ Getfo rp # t3"
    by (auto simp: extends_def)
  then have t3: "trace w3 = trace w @ Print (Downloading (filename it) label) # OpenWb lp # Getfo rp # t3"
    by simp
  from assms(1,2) o g t3 show ?thesis
    by (cases r3) (auto simp: download_file_def)
qed

lemma download_items_file_trace:
  assumes ne: "\<not> should_exclude (filename it)" and nodir: "st_mode it AND 2048 = 0"
    and fmt: "format_size (st_size it) = Inr label"
    and nd: "lfs w (path_join ld (filename it)) \<noteq> Some LDir"
  shows "\<exists>tr. trace (snd (download_items sftp depth rd ld (it # rest) w))
            = trace w @ Print (Downloading (filename it) label) # OpenWb (path_join ld (filename it))
                # Getfo (path_join rd (filename it)) # tr"
proof -
  let ?rp = "path_join rd (filename it)" and ?lp = "path_join ld (filename it)"
  obtain r1 w1 where df: "download_file sftp it ?rp ?lp w = (r1, w1)"
    by (cases "download_file sftp it ?rp ?lp w")
  from download_file_calls_getfo [OF df fmt nd] obtain t1 where
    t1: "trace w1 = trace w @ Print (Downloading (filename it) label) # OpenWb ?lp # Getfo ?rp # t1"
    by blast
  show ?thesis
  proof (cases r1)
    case (Inl e)
    with df have "download_items sftp depth rd ld (it # rest) w = (Inl e, w1)"
      unfolding download_items_file_step [OF ne nodir] by simp
    with t1 show ?thesis by simp
  next
    case r1: (Inr u)
    obtain r3 w3 where di: "download_items sftp depth rd ld rest w1 = (r3, w3)"
      by (cases "download_items sftp depth rd ld rest w1")
    from walker_extends(2) di have e3: "extends w1 w3" by blast
    from df r1 di have "download_items sftp depth rd ld (it # rest) w = (r3, w3)"
      unfolding download_items_file_step [OF ne nodir] by simp
    with t1 e3 show ?thesis by (auto simp: extends_def)
  qed
qed

lemma download_items_not_skipped:
  assumes ne: "\<not> should_exclude (filename it)"
  shows "download_items sftp depth rd ld [it] w \<noteq> (Inr (), w)"
proof (cases "st_mode it AND 2048 \<noteq> 0")
  case True
  from download_items_dir_trace [OF ne True, of sftp depth rd ld "[]" w]
  show ?thesis by auto
next
  case False
  then have nodir: "st_mode it AND 2048 = 0" by simp
  let ?rp = "path_join rd (filename it)" and ?lp = "path_join ld (filename it)"
  obtain r1 w1 where df: "download_file sftp it ?rp ?lp w = (r1, w1)"
    by (cases "download_file sftp it ?rp ?lp w")
  show ?thesis
  proof (cases "format_size (st_size it)")
    case (Inl e)
    then have "download_file sftp it ?rp ?lp w = (Inl e, w)" by (simp add: download_file_def)
    then have "download_items sftp depth rd ld [it] w = (Inl e, w)"
      unfolding download_items_file_step [OF ne nodir] by simp
    then show ?thesis by simp
  next
    case (Inr label)
    from download_file_announces [OF df Inr] obtain tr where
      "trace w1 = trace w @ Print (Downloading (filename it) label) # OpenWb ?lp # tr" by blast
    then have neq: "w1 \<noteq> w" by auto
    show ?thesis
    proof (cases r1)
      case (Inl e)
      with df have "download_items sftp depth rd ld [it] w = (Inl e, w1)"
        unfolding download_items_file_step [OF ne nodir] by simp
      then show ?thesis by simp
    next
      case (Inr u)
      with df have "download_items sftp depth rd ld [it] w = (Inr (), w1)"
        unfolding download_items_file_step [OF ne nodir] by simp
      with neq show ?thesis by simp
    qed
  qed
qed

lemma download_items_filter:
  "download_items sftp d rd ld items w = download_items sftp d rd ld (filter (\<lambda>x. \<not> should_exclude (filename x)) items) w"
proof (induction items arbitrary: w)
  case Nil
  show ?case by simp
next
  case (Cons it rest)
  show ?case
  proof (cases "should_exclude (filename it)")
    case True
    then show ?thesis using Cons.IH [of w] by simp
  next
    case False
    then have keep: "filter (\<lambda>x. \<not> should_exclude (filename x)) (it # rest) = it # filter (\<lambda>x. \<not> should_exclude (filename x)) rest" by simp
    show ?thesis unfolding keep
      using False Cons.IH
      by (auto simp: Let_def split: prod.splits sum.splits)
  qed
qed

lemma download_directory_filter:
  "listdir_attr sftp rd = Inr items \<Longrightarrow>
     download_directory sftp (Suc d) rd ld w
       = download_items sftp d rd ld (filter (\<lambda>x. \<not> should_exclude (filename x)) items) (emit (ListdirAttr rd) w)"
  using download_items_filter [of sftp d rd ld items] by (simp add: Let_def)

lemma download_items_sequence:
  "download_items sftp d rd ld (it # rest) w =
     (case download_items sftp d rd ld [it] w of
        (Inl e, w1) \<Rightarrow> (Inl e, w1)
      | (Inr u, w1) \<Rightarrow> download_items sftp d rd ld rest w1)"
  by (auto simp: Let_def split: prod.splits sum.splits)

lemma download_items_all_excluded:
  "\<forall>it \<in> set items. should_exclude (filename it) \<Longrightarrow>
     download_items sftp d rd ld items w = (Inr (), w)"
  by (induction items) simp_all

lemma download_items_skip_prefix:
  "\<forall>x \<in> set pre. should_exclude (filename x) \<Longrightarrow>
     download_items sftp d rd ld (pre @ rest) w = download_items sftp d rd ld rest w"
  by (induction pre) simp_all

lemma download_directory_first_dir:
  assumes ls: "listdir_attr sftp rd = Inr (pre @ it # rest)"
    and pre: "\<forall>x \<in> set pre. should_exclude (filename x)"
    and ne: "\<not> should_exclude (filename it)" and dir: "st_mode it AND 2048 \<noteq> 0"
  shows "\<exists>tr. trace (snd (download_directory sftp (Suc d) rd ld w))
            = trace w @ ListdirAttr rd # Makedirs (path_join ld (filename it)) # tr"
proof -
  from ls have "download_directory sftp (Suc d) rd ld w
      = download_items sftp d rd ld (pre @ it # rest) (emit (ListdirAttr rd) w)"
    by (simp add: Let_def)
  also have "\<dots> = download_items sftp d rd ld (it # rest) (emit (ListdirAttr rd) w)"
    by (rule download_items_skip_prefix [OF pre])
  finally have eq: "download_directory sftp (Suc d) rd ld w
      = download_items sftp d rd ld (it # rest) (emit (ListdirAttr rd) w)" .
  from download_items_dir_trace [OF ne dir, of sftp d rd ld rest "emit (ListdirAttr rd) w"]
  show ?thesis unfolding eq by simp
qed

lemma download_directory_first_file:
  assumes ls: "listdir_attr sftp rd = Inr (pre @ it # rest)"
    and pre: "\<forall>x \<in> set pre. should_exclude (filename x)"
    and ne: "\<not> should_exclude (filename it)" and nodir: "st_mode it AND 2048 = 0"
    and fmt: "format_size (st_size it) = Inr label"
    and nd: "lfs w (path_join ld (filename it)) \<noteq> Some LDir"
  shows "\<exists>tr. trace (snd (download_directory sftp (Suc d) rd ld w))
            = trace w @ ListdirAttr rd # Print (Downloading (filename it) label)
                # OpenWb (path_join ld (filename it)) # Getfo (path_join rd (filename it)) # tr"
proof -
  from ls have "download_directory sftp (Suc d) rd ld w
      = download_items sftp d rd ld (pre @ it # rest) (emit (ListdirAttr rd) w)"
    by (simp add: Let_def)
  also have "\<dots> = download_items sftp d rd ld (it # rest) (emit (ListdirAttr rd) w)"
    by (rule download_items_skip_prefix [OF pre])
  finally have eq: "download_directory sftp (Suc d) rd ld w
      = download_items sftp d rd ld (it # rest) (emit (ListdirAttr rd) w)" .
  from nd have nd': "lfs (emit (ListdirAttr rd) w) (path_join ld (filename it)) \<noteq> Some LDir"
    by simp
  from download_items_file_trace [OF ne nodir fmt nd', of sftp d rd rest]
  show ?thesis unfolding eq by simp
qed

lemma download_items_file_unlabelled:
  assumes ne: "\<not> should_exclude (filename it)" and nodir: "st_mode it AND 2048 = 0"
    and fmt: "format_size (st_size it) = Inl err"
  shows "download_items sftp depth rd ld (it # rest) w = (Inl err, w)"
  unfolding download_items_file_step [OF ne nodir] by (simp add: download_file_def fmt)

lemma download_items_file_opens:
  assumes ne: "\<not> should_exclude (filename it)" and nodir: "st_mode it AND 2048 = 0"
    and fmt: "format_size (st_size it) = Inr label"
  shows "\<exists>tr. trace (snd (download_items sftp depth rd ld (it # rest) w))
            = trace w @ Print (Downloading (filename it) label) # OpenWb (path_join ld (filename it)) # tr"
proof -
  let ?rp = "path_join rd (filename it)" and ?lp = "path_join ld (filename it)"
  obtain r1 w1 where df: "download_file sftp it ?rp ?lp w = (r1, w1)"
    by (cases "download_file sftp it ?rp ?lp w")
  from download_file_announces [OF df fmt] obtain t1 where
    t1: "trace w1 = trace w @ Print (Downloading (filename it) label) # OpenWb ?lp # t1"
    by blast
  show ?thesis
  proof (cases r1)
    case (Inl e)
    with df have "download_items sftp depth rd ld (it # rest) w = (Inl e, w1)"
      unfolding download_items_file_step [OF ne nodir] by simp
    with t1 show ?thesis by simp
  next
    case r1: (Inr u)
    obtain r3 w3 where di: "download_items sftp depth rd ld rest w1 = (r3, w3)"
      by (cases "download_items sftp depth rd ld rest w1")
    from walker_extends(2) di have e3: "extends w1 w3" by blast
    from df r1 di have "download_items sftp depth rd ld (it # rest) w = (r3, w3)"
      unfolding download_items_file_step [OF ne nodir] by simp
    with t1 e3 show ?thesis by (auto simp: extends_def)
  qed
qed

text \<open>
  Claim C2.  \<open>should_exclude\<close> is true exactly for the two names \<open>.sfdcprefix\<close> and
  \<open>.sfdc-file-listing-v1\<close>, compared as whole strings: no pattern is involved.

  The walker, \<open>download_directory\<close>, does to a listing what it does to the listing
  without the entries that have one of the two names; a listing of such entries only is
  walked with no call, no output and no change after the listing itself.  The loop
  handles the entries one after the other.  For a listed entry with one of the two names
  it does nothing at all and goes on with the rest of the listing.  An entry with any
  other name is never passed over: handling it changes the trace or raises.  When the
  mode bit \<open>0o4000\<close> is set the first thing done is \<open>os.makedirs\<close> on the mirrored local
  path, then the walker is called on the mirrored paths, then the loop goes on; where the
  local directory is there, the name is a plain one, no regular file is in the way and
  the recursion limit is not reached, the call of \<open>os.makedirs\<close> is followed by the
  listing of the mirrored remote path.  Otherwise the entry is handed to the transfer of
  one file.  Where the size cannot be labelled (above \<open>1024 ^ 4\<close>) the announcement
  raises and the walk ends there, before anything is opened.  Where it can, the transfer
  announces the download and opens the mirrored local path; where moreover the local
  directory is there, the name is a plain one and the local path is not a directory, the
  open is followed by \<open>getfo\<close> on the mirrored remote path.  The same holds for the first entry of a listing of \<open>download_directory\<close> that
  has neither name.  On the case directory 00123 the whole walk is: \<open>a.txt\<close> transferred,
  \<open>.sfdcprefix\<close> neither opened nor fetched nor created, \<open>logs\<close> created and listed.
\<close>

theorem should_exclude_exact_names_and_walker_filter:
  "(should_exclude name = (name = ''.sfdcprefix'' \<or> name = ''.sfdc-file-listing-v1''))
   \<and> (listdir_attr sftp rd = Inr items \<longrightarrow>
          download_directory sftp (Suc depth) rd ld w
            = download_items sftp depth rd ld
                (filter (\<lambda>x. \<not> should_exclude (filename x)) items) (emit (ListdirAttr rd) w))
   \<and> (listdir_attr sftp rd = Inr items \<and> (\<forall>x \<in> set items. should_exclude (filename x)) \<longrightarrow>
          download_directory sftp (Suc depth) rd ld w = (Inr (), emit (ListdirAttr rd) w))
   \<and> download_items sftp depth rd ld (it # rest) w =
        (case download_items sftp depth rd ld [it] w of
           (Inl e, w1) \<Rightarrow> (Inl e, w1)
         | (Inr u, w1) \<Rightarrow> download_items sftp depth rd ld rest w1)
   \<and> (should_exclude (filename it) \<longrightarrow>
          download_items sftp depth rd ld [it] w = (Inr (), w)
        \<and> download_items sftp depth rd ld (it # rest) w = download_items sftp depth rd ld rest w)
   \<and> (\<not> should_exclude (filename it) \<longrightarrow>
          download_items sftp depth rd ld [it] w \<noteq> (Inr (), w)
        \<and> (st_mode it AND 2048 \<noteq> 0 \<longrightarrow>
              download_items sftp depth rd ld (it # rest) w =
                (case makedirs_exist_ok (path_join ld (filename it)) w of
                   (Inl e, w1) \<Rightarrow> (Inl e, w1)
                 | (Inr u, w1) \<Rightarrow>
                     (case download_directory sftp depth (path_join rd (filename it))
                             (path_join ld (filename it)) w1 of
                        (Inl e, w2) \<Rightarrow> (Inl e, w2)
                      | (Inr u, w2) \<Rightarrow> download_items sftp depth rd ld rest w2))
            \<and> (\<exists>tr. trace (snd (download_items sftp depth rd ld (it # rest) w))
                  = trace w @ Makedirs (path_join ld (filename it)) # tr)
            \<and> (lfs w ld = Some LDir \<and> plain_name (filename it)
                 \<and> (\<forall>c. lfs w (path_join ld (filename it)) \<noteq> Some (LFile c)) \<and> 0 < depth \<longrightarrow>
                 (\<exists>tr. trace (snd (download_items sftp depth rd ld (it # rest) w))
                    = trace w @ Makedirs (path_join ld (filename it))
                        # ListdirAttr (path_join rd (filename it)) # tr)))
        \<and> (st_mode it AND 2048 = 0 \<longrightarrow>
              download_items sftp depth rd ld (it # rest) w =
                (case download_file sftp it (path_join rd (filename it)) (path_join ld (filename it)) w of
                   (Inl e, w1) \<Rightarrow> (Inl e, w1)
                 | (Inr u, w1) \<Rightarrow> download_items sftp depth rd ld rest w1)
            \<and> (\<forall>err. format_size (st_size it) = Inl err \<longrightarrow>
                 download_items sftp depth rd ld (it # rest) w = (Inl err, w))
            \<and> (\<forall>label. format_size (st_size it) = Inr label \<longrightarrow>
                 (\<exists>tr. trace (snd (download_items sftp depth rd ld (it # rest) w))
                    = trace w @ Print (Downloading (filename it) label)
                        # OpenWb (path_join ld (filename it)) # tr))
            \<and> (\<forall>label. format_size (st_size it) = Inr label
                          \<and> lfs w ld = Some LDir \<and> plain_name (filename it)
                          \<and> lfs w (path_join ld (filename it)) \<noteq> Some LDir \<longrightarrow>
                 (\<exists>tr. trace (snd (download_items sftp depth rd ld (it # rest) w))
                    = trace w @ Print (Downloading (filename it) label)
                        # OpenWb (path_join ld (filename it))
                        # Getfo (path_join rd (filename it)) # tr))))
   \<and> (listdir_attr sftp rd = Inr (pre @ it # rest)
        \<and> (\<forall>x \<in> set pre. should_exclude (filename x)) \<and> \<not> should_exclude (filename it) \<longrightarrow>
          (st_mode it AND 2048 \<noteq> 0 \<longrightarrow>
             (\<exists>tr. trace (snd (download_directory sftp (Suc depth) rd ld w))
                = trace w @ ListdirAttr rd # Makedirs (path_join ld (filename it)) # tr))
        \<and> (\<forall>label. st_mode it AND 2048 = 0 \<and> format_size (st_size it) = Inr label
                      \<and> lfs w ld = Some LDir \<and> plain_name (filename it)
                      \<and> lfs w (path_join ld (filename it)) \<noteq> Some LDir \<longrightarrow>
             (\<exists>tr. trace (snd (download_directory sftp (Suc depth) rd ld w))
                = trace w @ ListdirAttr rd # Print (Downloading (filename it) label)
                    # OpenWb (path_join ld (filename it))
                    # Getfo (path_join rd (filename it)) # tr)))
   \<and> download_directory scenario_sftp 10 ''/case/00123'' ''/tmp/00123'' scenario_local
       = (Inr (),
          \<lparr>lfs = [''/tmp/00123'' \<mapsto> LDir, ''/tmp/00123/a.txt'' \<mapsto> LFile (replicate 500 65),
                  ''/tmp/00123/logs'' \<mapsto> LDir],
           trace = [ListdirAttr ''/case/00123'', Print (Downloading ''a.txt'' (500, '''')),
                    OpenWb ''/tmp/00123/a.txt'', Getfo ''/case/00123/a.txt'',
                    Print (Progress 100 (500, '''') (500, '''')),
                    Print (DownloadComplete ''a.txt''), Makedirs ''/tmp/00123/logs'',
                    ListdirAttr ''/case/00123/logs'']\<rparr>)"
proof (intro conjI impI allI)
  show "should_exclude name = (name = ''.sfdcprefix'' \<or> name = ''.sfdc-file-listing-v1'')"
    by (simp add: should_exclude_def exclude_patterns_def)
next
  assume "listdir_attr sftp rd = Inr items"
  then show "download_directory sftp (Suc depth) rd ld w
            = download_items sftp depth rd ld
                (filter (\<lambda>x. \<not> should_exclude (filename x)) items) (emit (ListdirAttr rd) w)"
    by (rule download_directory_filter)
next
  assume "listdir_attr sftp rd = Inr items \<and> (\<forall>x \<in> set items. should_exclude (filename x))"
  then show "download_directory sftp (Suc depth) rd ld w = (Inr (), emit (ListdirAttr rd) w)"
    by (simp add: Let_def download_items_all_excluded)
next
  show "download_items sftp depth rd ld (it # rest) w =
        (case download_items sftp depth rd ld [it] w of
           (Inl e, w1) \<Rightarrow> (Inl e, w1)
         | (Inr u, w1) \<Rightarrow> download_items sftp depth rd ld rest w1)"
    by (rule download_items_sequence)
next
  assume ex: "should_exclude (filename it)"
  then show "download_items sftp depth rd ld [it] w = (Inr (), w)" by simp
  from ex show "download_items sftp depth rd ld (it # rest) w = download_items sftp depth rd ld rest w"
    by (rule download_items_excluded)
next
  assume ne: "\<not> should_exclude (filename it)"
  then show "download_items sftp depth rd ld [it] w \<noteq> (Inr (), w)"
    by (rule download_items_not_skipped)
next
  assume ne: "\<not> should_exclude (filename it)" and dir: "st_mode it AND 2048 \<noteq> 0"
  then show "download_items sftp depth rd ld (it # rest) w =
                (case makedirs_exist_ok (path_join ld (filename it)) w of
                   (Inl e, w1) \<Rightarrow> (Inl e, w1)
                 | (Inr u, w1) \<Rightarrow>
                     (case download_directory sftp depth (path_join rd (filename it))
                             (path_join ld (filename it)) w1 of
                        (Inl e, w2) \<Rightarrow> (Inl e, w2)
                      | (Inr u, w2) \<Rightarrow> download_items sftp depth rd ld rest w2))"
    by (simp add: Let_def)
  from ne dir show "\<exists>tr. trace (snd (download_items sftp depth rd ld (it # rest) w))
      = trace w @ Makedirs (path_join ld (filename it)) # tr"
    by (rule download_items_dir_trace)
next
  assume ne: "\<not> should_exclude (filename it)" and dir: "st_mode it AND 2048 \<noteq> 0"
    and h: "lfs w ld = Some LDir \<and> plain_name (filename it)
             \<and> (\<forall>c. lfs w (path_join ld (filename it)) \<noteq> Some (LFile c)) \<and> 0 < depth"
  then obtain d where d: "depth = Suc d" by (cases depth) auto
  from h have free: "\<forall>c. lfs w (path_join ld (filename it)) \<noteq> Some (LFile c)" by blast
  show "\<exists>tr. trace (snd (download_items sftp depth rd ld (it # rest) w))
      = trace w @ Makedirs (path_join ld (filename it)) # ListdirAttr (path_join rd (filename it)) # tr"
    unfolding d by (rule download_items_recurses [OF ne dir free])
next
  assume ne: "\<not> should_exclude (filename it)" and nodir: "st_mode it AND 2048 = 0"
  then show "download_items sftp depth rd ld (it # rest) w =
      (case download_file sftp it (path_join rd (filename it)) (path_join ld (filename it)) w of
         (Inl e, w1) \<Rightarrow> (Inl e, w1)
       | (Inr u, w1) \<Rightarrow> download_items sftp depth rd ld rest w1)"
    by (rule download_items_file_step)
next
  fix err
  assume ne: "\<not> should_exclude (filename it)" and nodir: "st_mode it AND 2048 = 0"
    and fmt: "format_size (st_size it) = Inl err"
  show "download_items sftp depth rd ld (it # rest) w = (Inl err, w)"
    by (rule download_items_file_unlabelled [OF ne nodir fmt])
next
  fix label
  assume ne: "\<not> should_exclude (filename it)" and nodir: "st_mode it AND 2048 = 0"
    and fmt: "format_size (st_size it) = Inr label"
  show "\<exists>tr. trace (snd (download_items sftp depth rd ld (it # rest) w))
      = trace w @ Print (Downloading (filename it) label) # OpenWb (path_join ld (filename it)) # tr"
    by (rule download_items_file_opens [OF ne nodir fmt])
next
  fix label
  assume ne: "\<not> should_exclude (filename it)" and nodir: "st_mode it AND 2048 = 0"
    and h: "format_size (st_size it) = Inr label \<and> lfs w ld = Some LDir \<and> plain_name (filename it)
             \<and> lfs w (path_join ld (filename it)) \<noteq> Some LDir"
  from h have fmt: "format_size (st_size it) = Inr label"
    and nd: "lfs w (path_join ld (filename it)) \<noteq> Some LDir" by blast+
  show "\<exists>tr. trace (snd (download_items sftp depth rd ld (it # rest) w))
      = trace w @ Print (Downloading (filename it) label) # OpenWb (path_join ld (filename it))
          # Getfo (path_join rd (filename it)) # tr"
    by (rule download_items_file_trace [OF ne nodir fmt nd])
next
  assume h: "listdir_attr sftp rd = Inr (pre @ it # rest)
        \<and> (\<forall>x \<in> set pre. should_exclude (filename x)) \<and> \<not> should_exclude (filename it)"
    and dir: "st_mode it AND 2048 \<noteq> 0"
  from h have ls: "listdir_attr sftp rd = Inr (pre @ it # rest)"
    and pre: "\<forall>x \<in> set pre. should_exclude (filename x)"
    and ne: "\<not> should_exclude (filename it)" by blast+
  show "\<exists>tr. trace (snd (download_directory sftp (Suc depth) rd ld w))
      = trace w @ ListdirAttr rd # Makedirs (path_join ld (filename it)) # tr"
    by (rule download_directory_first_dir [OF ls pre ne dir])
next
  fix label
  assume h: "listdir_attr sftp rd = Inr (pre @ it # rest)
        \<and> (\<forall>x \<in> set pre. should_exclude (filename x)) \<and> \<not> should_exclude (filename it)"
    and g: "st_mode it AND 2048 = 0 \<and> format_size (st_size it) = Inr label
             \<and> lfs w ld = Some LDir \<and> plain_name (filename it)
             \<and> lfs w (path_join ld (filename it)) \<noteq> Some LDir"
  from h have ls: "listdir_attr sftp rd = Inr (pre @ it # rest)"
    and pre: "\<forall>x \<in> set pre. should_exclude (filename x)"
    and ne: "\<not> should_exclude (filename it)" by blast+
  from g have nodir: "st_mode it AND 2048 = 0" and fmt: "format_size (st_size it) = Inr label"
    and nd: "lfs w (path_join ld (filename it)) \<noteq> Some LDir" by blast+
  show "\<exists>tr. trace (snd (download_directory sftp (Suc depth) rd ld w))
      = trace w @ ListdirAttr rd # Print (Downloading (filename it) label)
          # OpenWb (path_join ld (filename it)) # Getfo (path_join rd (filename it)) # tr"
    by (rule download_directory_first_file [OF ls pre ne nodir fmt nd])
next
  show "download_directory scenario_sftp 10 ''/case/00123'' ''/tmp/00123'' scenario_local
       = (Inr (),
          \<lparr>lfs = [''/tmp/00123'' \<mapsto> LDir, ''/tmp/00123/a.txt'' \<mapsto> LFile (replicate 500 65),
                  ''/tmp/00123/logs'' \<mapsto> LDir],
           trace = [ListdirAttr ''/case/00123'', Print (Downloading ''a.txt'' (500, '''')),
                    OpenWb ''/tmp/00123/a.txt'', Getfo ''/case/00123/a.txt'',
                    Print (Progress 100 (500, '''') (500, '''')),
                    Print (DownloadComplete ''a.txt''), Makedirs ''/tmp/00123/logs'',
                    ListdirAttr ''/case/00123/logs'']\<rparr>)"
    by (simp add: numeral_nat scenario_sftp_def scenario_local_def walker_eval)
qed

text \<open>
  The theorem on the listing of case 00123, and on listings that start with
  \<open>.sfdcprefix\<close>: the sentinel entries are passed over, the entry \<open>a.txt\<close> is
  transferred, the entry \<open>logs\<close> (bit \<open>0o4000\<close> set) is created and listed.  An entry
  \<open>big.bin\<close> of 2 TiB (2199023255552 bytes) ends the walk with \<open>KeyError\<close>.
\<close>

theorem should_exclude_exact_names_and_walker_filter_witness:
  "should_exclude ''.sfdcprefix'' \<and> should_exclude ''.sfdc-file-listing-v1''
   \<and> \<not> should_exclude ''a.txt'' \<and> \<not> should_exclude ''logs''
   \<and> listdir_attr scenario_sftp ''/case/00123''
       = Inr [mk_item ''a.txt'' 33188 500, mk_item ''.sfdcprefix'' 33188 10, mk_item ''logs'' 18925 4096]
   \<and> download_directory scenario_sftp (Suc 9) ''/case/00123'' ''/tmp/00123'' scenario_local
       = download_items scenario_sftp 9 ''/case/00123'' ''/tmp/00123''
           [mk_item ''a.txt'' 33188 500, mk_item ''logs'' 18925 4096]
           (emit (ListdirAttr ''/case/00123'') scenario_local)
   \<and> download_directory
         (scenario_sftp\<lparr>listdir_attr := (\<lambda>p. Inr [mk_item ''.sfdcprefix'' 33188 10,
                                                  mk_item ''.sfdc-file-listing-v1'' 33188 20])\<rparr>)
         (Suc 9) ''/case/00123'' ''/tmp/00123'' scenario_local
       = (Inr (), emit (ListdirAttr ''/case/00123'') scenario_local)
   \<and> download_items scenario_sftp 10 ''/case/00123'' ''/tmp/00123''
         [mk_item ''.sfdcprefix'' 33188 10] scenario_local = (Inr (), scenario_local)
   \<and> download_items scenario_sftp 10 ''/case/00123'' ''/tmp/00123''
         [mk_item ''a.txt'' 33188 500] scenario_local \<noteq> (Inr (), scenario_local)
   \<and> (\<exists>tr. trace (snd (download_items scenario_sftp 10 ''/case/00123'' ''/tmp/00123''
                 [mk_item ''a.txt'' 33188 500] scenario_local))
          = trace scenario_local @ Print (Downloading ''a.txt'' (500, ''''))
              # OpenWb ''/tmp/00123/a.txt'' # tr)
   \<and> \<not> should_exclude ''big.bin''
   \<and> format_size (st_size (mk_item ''big.bin'' 33188 2199023255552)) = Inl KeyError
   \<and> download_items scenario_sftp 10 ''/case/00123'' ''/tmp/00123''
         [mk_item ''big.bin'' 33188 2199023255552] scenario_local = (Inl KeyError, scenario_local)
   \<and> lfs scenario_local ''/tmp/00123'' = Some LDir \<and> plain_name ''a.txt'' \<and> plain_name ''logs''
   \<and> (\<exists>tr. trace (snd (download_items scenario_sftp 10 ''/case/00123'' ''/tmp/00123''
                 [mk_item ''a.txt'' 33188 500] scenario_local))
          = trace scenario_local @ Print (Downloading ''a.txt'' (500, ''''))
              # OpenWb ''/tmp/00123/a.txt'' # Getfo ''/case/00123/a.txt'' # tr)
   \<and> (\<exists>tr. trace (snd (download_items scenario_sftp 10 ''/case/00123'' ''/tmp/00123''
                 [mk_item ''logs'' 18925 4096] scenario_local))
          = trace scenario_local @ Makedirs ''/tmp/00123/logs''
              # ListdirAttr ''/case/00123/logs'' # tr)
   \<and> (\<exists>tr. trace (snd (download_directory
                 (scenario_sftp\<lparr>listdir_attr := (\<lambda>p. Inr [mk_item ''.sfdcprefix'' 33188 10,
                                                          mk_item ''a.txt'' 33188 500])\<rparr>)
                 (Suc 9) ''/case/00123'' ''/tmp/00123'' scenario_local))
          = trace scenario_local @ ListdirAttr ''/case/00123''
              # Print (Downloading ''a.txt'' (500, ''''))
              # OpenWb ''/tmp/00123/a.txt'' # Getfo ''/case/00123/a.txt'' # tr)
   \<and> (\<exists>tr. trace (snd (download_directory
                 (scenario_sftp\<lparr>listdir_attr := (\<lambda>p. Inr [mk_item ''.sfdcprefix'' 33188 10,
                                                          mk_item ''logs'' 18925 4096])\<rparr>)
                 (Suc 9) ''/case/00123'' ''/tmp/00123'' scenario_local))
          = trace scenario_local @ ListdirAttr ''/case/00123''
              # Makedirs ''/tmp/00123/logs'' # tr)"
proof -
  let ?a = "mk_item ''a.txt'' 33188 500" and ?s = "mk_item ''.sfdcprefix'' 33188 10"
    and ?v = "mk_item ''.sfdc-file-listing-v1'' 33188 20" and ?l = "mk_item ''logs'' 18925 4096"
    and ?b = "mk_item ''big.bin'' 33188 2199023255552"
  let ?rd = "''/case/00123''" and ?ld = "''/tmp/00123''"
  let ?both = "scenario_sftp\<lparr>listdir_attr := (\<lambda>p. Inr [?s, ?v])\<rparr>"
  let ?sa = "scenario_sftp\<lparr>listdir_attr := (\<lambda>p. Inr [?s, ?a])\<rparr>"
  let ?sl = "scenario_sftp\<lparr>listdir_attr := (\<lambda>p. Inr [?s, ?l])\<rparr>"
  note main = should_exclude_exact_names_and_walker_filter
  have n1: "should_exclude ''.sfdcprefix''" and n2: "should_exclude ''.sfdc-file-listing-v1''"
    and n3: "\<not> should_exclude ''a.txt''" and n4: "\<not> should_exclude ''logs''"
    and n5: "\<not> should_exclude ''big.bin''"
    using main [where name = "''.sfdcprefix''", THEN conjunct1]
      main [where name = "''.sfdc-file-listing-v1''", THEN conjunct1]
      main [where name = "''a.txt''", THEN conjunct1]
      main [where name = "''logs''", THEN conjunct1]
      main [where name = "''big.bin''", THEN conjunct1]
    by simp_all
  have fn: "filename ?a = ''a.txt''" "filename ?s = ''.sfdcprefix''"
    "filename ?v = ''.sfdc-file-listing-v1''" "filename ?l = ''logs''" "filename ?b = ''big.bin''"
    by (simp_all add: mk_item_def)
  have s1: "should_exclude (filename ?s)" and s1': "should_exclude (filename ?v)"
    and s2: "\<not> should_exclude (filename ?a)" and s3: "\<not> should_exclude (filename ?l)"
    and s4: "\<not> should_exclude (filename ?b)"
    using n1 n2 n3 n4 n5 by (simp_all add: fn)
  have m2: "st_mode ?a AND 2048 = 0" by (simp add: mk_item_def)
  have m3: "st_mode ?l AND 2048 \<noteq> 0" by (simp add: mk_item_def)
  have m4: "st_mode ?b AND 2048 = 0" by (simp add: mk_item_def)
  have "format_size 2199023255552 = Inl KeyError" by (rule format_size_KeyError_64) simp_all
  then have big: "format_size (st_size ?b) = Inl KeyError" by (simp add: mk_item_def)
  have ls: "listdir_attr scenario_sftp ?rd = Inr [?a, ?s, ?l]" by (simp add: scenario_sftp_def)
  have flt: "filter (\<lambda>x. \<not> should_exclude (filename x)) [?a, ?s, ?l] = [?a, ?l]"
    using s1 s2 s3 by simp
  have ldir: "lfs scenario_local ?ld = Some LDir" by (simp add: scenario_local_def)
  have pa: "plain_name ''a.txt''" and pl: "plain_name ''logs''" by (simp_all add: plain_name_def)
  have pj: "path_join ?ld (filename ?a) = ''/tmp/00123/a.txt''"
    "path_join ?rd (filename ?a) = ''/case/00123/a.txt''"
    "path_join ?ld (filename ?l) = ''/tmp/00123/logs''"
    "path_join ?rd (filename ?l) = ''/case/00123/logs''"
    "path_join ?ld ''a.txt'' = ''/tmp/00123/a.txt''"
    "path_join ?rd ''a.txt'' = ''/case/00123/a.txt''"
    "path_join ?ld ''logs'' = ''/tmp/00123/logs''"
    "path_join ?rd ''logs'' = ''/case/00123/logs''"
    by (simp_all add: path_join_def mk_item_def)
  have fmt: "format_size (st_size ?a) = Inr (500, '''')" by (simp add: walker_eval)
  have free_a: "lfs scenario_local (path_join ?ld (filename ?a)) \<noteq> Some LDir"
    by (simp add: pj scenario_local_def)
  have free_l: "\<forall>c. lfs scenario_local (path_join ?ld (filename ?l)) \<noteq> Some (LFile c)"
    by (simp add: pj scenario_local_def)
  have b1: "download_directory scenario_sftp (Suc 9) ?rd ?ld scenario_local
       = download_items scenario_sftp 9 ?rd ?ld [?a, ?l] (emit (ListdirAttr ?rd) scenario_local)"
    using main [where sftp = scenario_sftp and rd = ?rd and items = "[?a, ?s, ?l]" and depth = 9
        and ld = ?ld and w = scenario_local, THEN conjunct2, THEN conjunct1, THEN mp, OF ls]
    unfolding flt .
  have lsb: "listdir_attr ?both ?rd = Inr [?s, ?v] \<and> (\<forall>x \<in> set [?s, ?v]. should_exclude (filename x))"
    using s1 s1' by simp
  have b2: "download_directory ?both (Suc 9) ?rd ?ld scenario_local
       = (Inr (), emit (ListdirAttr ?rd) scenario_local)"
    by (rule main [where sftp = ?both and rd = ?rd and items = "[?s, ?v]" and depth = 9
        and ld = ?ld and w = scenario_local,
        THEN conjunct2, THEN conjunct2, THEN conjunct1, THEN mp, OF lsb])
  have e: "download_items scenario_sftp 10 ?rd ?ld [?s] scenario_local = (Inr (), scenario_local)"
    by (rule main [where sftp = scenario_sftp and rd = ?rd and it = ?s and depth = 10
        and ld = ?ld and w = scenario_local and rest = "[]",
        THEN conjunct2, THEN conjunct2, THEN conjunct2, THEN conjunct2, THEN conjunct1,
        THEN mp, OF s1, THEN conjunct1])
  note na = main [where sftp = scenario_sftp and rd = ?rd and it = ?a and depth = 10
        and ld = ?ld and w = scenario_local and rest = "[]",
        THEN conjunct2, THEN conjunct2, THEN conjunct2, THEN conjunct2, THEN conjunct2,
        THEN conjunct1, THEN mp, OF s2]
  have a1: "download_items scenario_sftp 10 ?rd ?ld [?a] scenario_local \<noteq> (Inr (), scenario_local)"
    by (rule na [THEN conjunct1])
  have ga: "format_size (st_size ?a) = Inr (500, '''') \<and> lfs scenario_local ?ld = Some LDir
      \<and> plain_name (filename ?a) \<and> lfs scenario_local (path_join ?ld (filename ?a)) \<noteq> Some LDir"
    using fmt ldir pa free_a by (simp only: fn simp_thms)
  have a2: "\<exists>tr. trace (snd (download_items scenario_sftp 10 ?rd ?ld [?a] scenario_local))
          = trace scenario_local @ Print (Downloading ''a.txt'' (500, ''''))
              # OpenWb ''/tmp/00123/a.txt'' # Getfo ''/case/00123/a.txt'' # tr"
    using na [THEN conjunct2, THEN conjunct2, THEN mp, OF m2, THEN conjunct2, THEN conjunct2,
        THEN conjunct2, THEN spec, THEN mp, OF ga]
    unfolding pj fn .
  have a3: "\<exists>tr. trace (snd (download_items scenario_sftp 10 ?rd ?ld [?a] scenario_local))
          = trace scenario_local @ Print (Downloading ''a.txt'' (500, ''''))
              # OpenWb ''/tmp/00123/a.txt'' # tr"
    using na [THEN conjunct2, THEN conjunct2, THEN mp, OF m2, THEN conjunct2, THEN conjunct2,
        THEN conjunct1, THEN spec, THEN mp, OF fmt]
    unfolding pj fn .
  have bk: "download_items scenario_sftp 10 ?rd ?ld [?b] scenario_local = (Inl KeyError, scenario_local)"
    by (rule main [where sftp = scenario_sftp and rd = ?rd and it = ?b and depth = 10
        and ld = ?ld and w = scenario_local and rest = "[]",
        THEN conjunct2, THEN conjunct2, THEN conjunct2, THEN conjunct2, THEN conjunct2,
        THEN conjunct1, THEN mp, OF s4, THEN conjunct2, THEN conjunct2, THEN mp, OF m4,
        THEN conjunct2, THEN conjunct1, THEN spec, THEN mp, OF big])
  note nl = main [where sftp = scenario_sftp and rd = ?rd and it = ?l and depth = 10
        and ld = ?ld and w = scenario_local and rest = "[]",
        THEN conjunct2, THEN conjunct2, THEN conjunct2, THEN conjunct2, THEN conjunct2,
        THEN conjunct1, THEN mp, OF s3]
  have gl: "lfs scenario_local ?ld = Some LDir \<and> plain_name (filename ?l)
      \<and> (\<forall>c. lfs scenario_local (path_join ?ld (filename ?l)) \<noteq> Some (LFile c)) \<and> 0 < (10 :: nat)"
    using ldir pl free_l by (simp add: fn)
  have l2: "\<exists>tr. trace (snd (download_items scenario_sftp 10 ?rd ?ld [?l] scenario_local))
          = trace scenario_local @ Makedirs ''/tmp/00123/logs''
              # ListdirAttr ''/case/00123/logs'' # tr"
    using nl [THEN conjunct2, THEN conjunct1, THEN mp, OF m3, THEN conjunct2, THEN conjunct2,
        THEN mp, OF gl]
    unfolding pj .
  have hsa: "listdir_attr ?sa ?rd = Inr ([?s] @ ?a # [])
      \<and> (\<forall>x \<in> set [?s]. should_exclude (filename x)) \<and> \<not> should_exclude (filename ?a)"
    using s1 s2 by simp
  have gsa: "st_mode ?a AND 2048 = 0 \<and> format_size (st_size ?a) = Inr (500, '''')
      \<and> lfs scenario_local ?ld = Some LDir
      \<and> plain_name (filename ?a) \<and> lfs scenario_local (path_join ?ld (filename ?a)) \<noteq> Some LDir"
    using m2 ga by blast
  have f1: "\<exists>tr. trace (snd (download_directory ?sa (Suc 9) ?rd ?ld scenario_local))
          = trace scenario_local @ ListdirAttr ?rd # Print (Downloading ''a.txt'' (500, ''''))
              # OpenWb ''/tmp/00123/a.txt'' # Getfo ''/case/00123/a.txt'' # tr"
    using main [where sftp = ?sa and rd = ?rd and pre = "[?s]" and it = ?a and rest = "[]"
        and depth = 9 and ld = ?ld and w = scenario_local,
        THEN conjunct2, THEN conjunct2, THEN conjunct2, THEN conjunct2, THEN conjunct2,
        THEN conjunct2, THEN conjunct1, THEN mp, OF hsa, THEN conjunct2, THEN spec, THEN mp, OF gsa]
    unfolding pj fn .
  have hsl: "listdir_attr ?sl ?rd = Inr ([?s] @ ?l # [])
      \<and> (\<forall>x \<in> set [?s]. should_exclude (filename x)) \<and> \<not> should_exclude (filename ?l)"
    using s1 s3 by simp
  have f2: "\<exists>tr. trace (snd (download_directory ?sl (Suc 9) ?rd ?ld scenario_local))
          = trace scenario_local @ ListdirAttr ?rd # Makedirs ''/tmp/00123/logs'' # tr"
    using main [where sftp = ?sl and rd = ?rd and pre = "[?s]" and it = ?l and rest = "[]"
        and depth = 9 and ld = ?ld and w = scenario_local,
        THEN conjunct2, THEN conjunct2, THEN conjunct2, THEN conjunct2, THEN conjunct2,
        THEN conjunct2, THEN conjunct1, THEN mp, OF hsl, THEN conjunct1, THEN mp, OF m3]
    unfolding pj .
  from n1 n2 n3 n4 n5 ls b1 b2 e a1 a3 big bk ldir pa pl a2 l2 f1 f2 show ?thesis by blast
qed

text \<open>
  Claim C1.  The claim is that every directory entry is created locally and walked, so
  that the local tree mirrors the remote one.  The walker tests the mode bit \<open>0o4000\<close>,
  which is the set-user-id bit; the bit that marks a directory is \<open>0o40000\<close>.  On the
  case directory \<open>/case/1\<close>, whose entry \<open>sub\<close> is a directory (its type bits, under the
  mask \<open>0o170000 = 61440\<close>, are \<open>0o40000 = 16384\<close>) that lists the file \<open>a.txt\<close>, the
  walker takes \<open>sub\<close> for a file: it never calls \<open>os.makedirs\<close>, never lists
  \<open>/case/1/sub\<close>, opens the local path \<open>/tmp/1/sub\<close> as a regular file and calls
  \<open>getfo\<close> on the remote directory.  When the server refuses to read the directory the
  walk ends with that error; when the read delivers nothing the walk even ends normally.
  Either way the local side holds an empty regular file \<open>sub\<close>, no directory, and no
  \<open>a.txt\<close>.
\<close>

theorem download_directory_takes_directory_for_file:
  "st_mode (mk_item ''sub'' 16877 4096) AND 61440 = 16384
   \<and> listdir_attr (tree_sftp (Inl OSError)) ''/case/1/sub'' = Inr [mk_item ''a.txt'' 33188 3]
   \<and> download_directory (tree_sftp (Inl OSError)) 10 ''/case/1'' ''/tmp/1'' tree_local
       = (Inl OSError,
          \<lparr>lfs = [''/tmp/1'' \<mapsto> LDir, ''/tmp/1/sub'' \<mapsto> LFile []],
           trace = [ListdirAttr ''/case/1'', Print (Downloading ''sub'' (4, ''KB'')),
                    OpenWb ''/tmp/1/sub'', Getfo ''/case/1/sub'']\<rparr>)
   \<and> download_directory (tree_sftp (Inr [])) 10 ''/case/1'' ''/tmp/1'' tree_local
       = (Inr (),
          \<lparr>lfs = [''/tmp/1'' \<mapsto> LDir, ''/tmp/1/sub'' \<mapsto> LFile []],
           trace = [ListdirAttr ''/case/1'', Print (Downloading ''sub'' (4, ''KB'')),
                    OpenWb ''/tmp/1/sub'', Getfo ''/case/1/sub'',
                    Print (DownloadComplete ''sub'')]\<rparr>)"
  by (simp add: numeral_nat tree_sftp_def tree_local_def walker_eval)

subsection \<open>What a transfer does to a local file that is already there\<close>

lemma delivered_Nil [simp]: "delivered [] = []"
  by (simp add: delivered_def)

lemma delivered_Cons [simp]: "delivered (c # cs) = (if c = [] then [] else c @ delivered cs)"
  by (simp add: delivered_def)

lemma lfs_write_chunk:
  "lfs w lp = Some (LFile old) \<Longrightarrow> lfs (write_chunk lp c w) lp = Some (LFile (old @ c))"
  by (simp add: write_chunk_def)

lemma transfer_content:
  "transfer (\<lambda>x y. print_progress x y rs) fs lp cs sofar w = (Inr n, w') \<Longrightarrow>
     lfs w lp = Some (LFile old) \<Longrightarrow> lfs w' lp = Some (LFile (old @ delivered cs))"
proof (induction cs arbitrary: sofar w old)
  case Nil
  then show ?case by simp
next
  case (Cons c cs)
  note wr = lfs_write_chunk [OF Cons.prems(2), of c]
  show ?case
  proof (cases "c = []")
    case True
    with Cons.prems wr show ?thesis by (auto simp: Let_def)
  next
    case False
    obtain r1 w1 where cb: "print_progress (sofar + int (length c)) fs rs (write_chunk lp c w) = (r1, w1)"
      by (cases "print_progress (sofar + int (length c)) fs rs (write_chunk lp c w)")
    from print_progress_extends [OF cb] wr have l1: "lfs w1 lp = Some (LFile (old @ c))" by simp
    show ?thesis
    proof (cases r1)
      case (Inl e)
      with Cons.prems False cb show ?thesis by (simp add: Let_def)
    next
      case (Inr u)
      with Cons.prems False cb have
        "transfer (\<lambda>x y. print_progress x y rs) fs lp cs (sofar + int (length c)) w1 = (Inr n, w')"
        by (simp add: Let_def)
      from Cons.IH [OF this l1] False show ?thesis by simp
    qed
  qed
qed

lemma getfo_content:
  "getfo sftp rp lp (\<lambda>x y. print_progress x y rs) w = (Inr n, w') \<Longrightarrow>
     lfs w lp = Some (LFile old) \<Longrightarrow>
     \<exists>cs. read_chunks sftp rp = Inr cs \<and> lfs w' lp = Some (LFile (old @ delivered cs))"
  by (auto simp: getfo_def Let_def split: sum.splits dest: transfer_content)

lemma open_wb_content:
  "open_wb lp w = (Inr u, w') \<Longrightarrow> lfs w' lp = Some (LFile [])"
  by (auto simp: open_wb_def Let_def split: option.splits lnode.splits)

lemma download_file_content:
  assumes "download_file sftp it rp lp w = (Inr (), w')"
  shows "\<exists>cs. read_chunks sftp rp = Inr cs \<and> lfs w' lp = Some (LFile (delivered cs))"
proof -
  from assms obtain label where fmt: "format_size (st_size it) = Inr label"
    by (cases "format_size (st_size it)") (auto simp: download_file_def)
  let ?w1 = "emit (Print (Downloading (filename it) label)) w"
  obtain r2 w2 where o: "open_wb lp ?w1 = (r2, w2)" by (cases "open_wb lp ?w1")
  with assms fmt obtain u where r2: "r2 = Inr u" by (cases r2) (auto simp: download_file_def)
  from open_wb_content [OF o [unfolded r2]] have l2: "lfs w2 lp = Some (LFile [])" .
  obtain r3 w3 where g: "getfo sftp rp lp (\<lambda>x y. print_progress x y (st_size it)) w2 = (r3, w3)"
    by (cases "getfo sftp rp lp (\<lambda>x y. print_progress x y (st_size it)) w2")
  with assms fmt o r2 obtain n where r3: "r3 = Inr n" by (cases r3) (auto simp: download_file_def)
  from getfo_content [OF g [unfolded r3] l2] obtain cs where
    cs: "read_chunks sftp rp = Inr cs" "lfs w3 lp = Some (LFile (delivered cs))" by auto
  from assms fmt o r2 g r3 have "w' = emit (Print (DownloadComplete (filename it))) w3"
    by (simp add: download_file_def)
  with cs show ?thesis by simp
qed

lemma single_file_content:
  assumes "single_file sftp name rp lp w = (Inr (), w')"
  shows "\<exists>cs. read_chunks sftp rp = Inr cs \<and> lfs w' lp = Some (LFile (delivered cs))"
proof -
  obtain r1 w1 where o: "open_wb lp w = (r1, w1)" by (cases "open_wb lp w")
  with assms obtain u where r1: "r1 = Inr u" by (cases r1) (auto simp: single_file_def)
  from open_wb_content [OF o [unfolded r1]] have l1: "lfs w1 lp = Some (LFile [])" .
  from assms o r1 obtain a where st: "stat sftp rp = Inr a"
    by (cases "stat sftp rp") (auto simp: single_file_def Let_def)
  let ?w2 = "emit (Stat rp) w1"
  from l1 have l2: "lfs ?w2 lp = Some (LFile [])" by simp
  obtain r3 w3 where g: "getfo sftp rp lp (\<lambda>x y. print_progress x y (st_size a)) ?w2 = (r3, w3)"
    by (cases "getfo sftp rp lp (\<lambda>x y. print_progress x y (st_size a)) ?w2")
  with assms o r1 st obtain n where r3: "r3 = Inr n"
    by (cases r3) (auto simp: single_file_def Let_def)
  from getfo_content [OF g [unfolded r3] l2] obtain cs where
    cs: "read_chunks sftp rp = Inr cs" "lfs w3 lp = Some (LFile (delivered cs))" by auto
  from assms o r1 st g r3 have "w' = emit (Print (DownloadComplete name)) w3"
    by (simp add: single_file_def Let_def)
  with cs show ?thesis by simp
qed

lemma open_wb_forgets:
  "open_wb lp (w\<lparr>lfs := (lfs w)(lp \<mapsto> LFile old)\<rparr>) = open_wb lp (w\<lparr>lfs := (lfs w)(lp := None)\<rparr>)"
  by (simp add: open_wb_def emit_def Let_def)

lemma download_file_forgets:
  "format_size (st_size it) = Inr label \<Longrightarrow>
   download_file sftp it rp lp (w\<lparr>lfs := (lfs w)(lp \<mapsto> LFile old)\<rparr>)
     = download_file sftp it rp lp (w\<lparr>lfs := (lfs w)(lp := None)\<rparr>)"
  by (simp add: download_file_def open_wb_def emit_def Let_def)

lemma single_file_forgets:
  "single_file sftp name rp lp (w\<lparr>lfs := (lfs w)(lp \<mapsto> LFile old)\<rparr>)
     = single_file sftp name rp lp (w\<lparr>lfs := (lfs w)(lp := None)\<rparr>)"
  by (simp add: single_file_def open_wb_forgets)

text \<open>
  Claim C9, as amended.  Both transfers (the file case of the walker and the transfer of
  one chosen file) open the local destination with mode \<open>'wb'\<close>, which creates or
  truncates: a regular file that is already at the local path does not make the open
  fail, it is emptied.  The outcome of the transfer is the same whether the path held a
  regular file, with any content, or nothing (for the walker: once the announcement has
  been formatted, which comes before the open).  After a transfer that succeeded the
  local file holds exactly the bytes that the remote read delivered; nothing of an
  older content is left.
\<close>

theorem transfer_opens_for_truncating_write:
  "(format_size (st_size it) = Inr label \<longrightarrow>
      download_file sftp it rp lp (w\<lparr>lfs := (lfs w)(lp \<mapsto> LFile old)\<rparr>)
        = download_file sftp it rp lp (w\<lparr>lfs := (lfs w)(lp := None)\<rparr>))
   \<and> single_file sftp name rp lp (w\<lparr>lfs := (lfs w)(lp \<mapsto> LFile old)\<rparr>)
     = single_file sftp name rp lp (w\<lparr>lfs := (lfs w)(lp := None)\<rparr>)
   \<and> (lfs w lp = Some (LFile old) \<longrightarrow>
         open_wb lp w = (Inr (), (emit (OpenWb lp) w)\<lparr>lfs := (lfs w)(lp \<mapsto> LFile [])\<rparr>))
   \<and> (download_file sftp it rp lp w = (Inr (), w') \<longrightarrow>
         (\<exists>cs. read_chunks sftp rp = Inr cs \<and> lfs w' lp = Some (LFile (delivered cs))))
   \<and> (single_file sftp name rp lp w = (Inr (), w') \<longrightarrow>
         (\<exists>cs. read_chunks sftp rp = Inr cs \<and> lfs w' lp = Some (LFile (delivered cs))))"
proof (intro conjI impI)
  assume "format_size (st_size it) = Inr label"
  then show "download_file sftp it rp lp (w\<lparr>lfs := (lfs w)(lp \<mapsto> LFile old)\<rparr>)
     = download_file sftp it rp lp (w\<lparr>lfs := (lfs w)(lp := None)\<rparr>)"
    by (rule download_file_forgets)
next
  show "single_file sftp name rp lp (w\<lparr>lfs := (lfs w)(lp \<mapsto> LFile old)\<rparr>)
     = single_file sftp name rp lp (w\<lparr>lfs := (lfs w)(lp := None)\<rparr>)"
    by (rule single_file_forgets)
next
  assume "lfs w lp = Some (LFile old)"
  then show "open_wb lp w = (Inr (), (emit (OpenWb lp) w)\<lparr>lfs := (lfs w)(lp \<mapsto> LFile [])\<rparr>)"
    by (simp add: open_wb_def Let_def)
next
  assume "download_file sftp it rp lp w = (Inr (), w')"
  then show "\<exists>cs. read_chunks sftp rp = Inr cs \<and> lfs w' lp = Some (LFile (delivered cs))"
    by (rule download_file_content)
next
  assume "single_file sftp name rp lp w = (Inr (), w')"
  then show "\<exists>cs. read_chunks sftp rp = Inr cs \<and> lfs w' lp = Some (LFile (delivered cs))"
    by (rule single_file_content)
qed

text \<open>
  The theorem on the older two-byte \<open>a.txt\<close> in the local directory of case 00123.
\<close>

theorem transfer_opens_for_truncating_write_witness:
  "lfs occupied_local ''/tmp/00123/a.txt'' = Some (LFile [9, 9])
   \<and> format_size (st_size (mk_item ''a.txt'' 33188 500)) = Inr (500, '''')
   \<and> download_file scenario_sftp (mk_item ''a.txt'' 33188 500) ''/case/00123/a.txt'' ''/tmp/00123/a.txt''
         (occupied_local\<lparr>lfs := (lfs occupied_local)(''/tmp/00123/a.txt'' \<mapsto> LFile [9, 9])\<rparr>)
       = download_file scenario_sftp (mk_item ''a.txt'' 33188 500) ''/case/00123/a.txt'' ''/tmp/00123/a.txt''
         (occupied_local\<lparr>lfs := (lfs occupied_local)(''/tmp/00123/a.txt'' := None)\<rparr>)
   \<and> fst (open_wb ''/tmp/00123/a.txt'' occupied_local) = Inr ()
   \<and> (\<exists>cs. read_chunks scenario_sftp ''/case/00123/a.txt'' = Inr cs
         \<and> lfs (snd (download_file scenario_sftp (mk_item ''a.txt'' 33188 500)
                  ''/case/00123/a.txt'' ''/tmp/00123/a.txt'' occupied_local)) ''/tmp/00123/a.txt''
             = Some (LFile (delivered cs)))
   \<and> (\<exists>cs. read_chunks scenario_sftp ''/case/00123/a.txt'' = Inr cs
         \<and> lfs (snd (single_file scenario_sftp ''a.txt''
                  ''/case/00123/a.txt'' ''/tmp/00123/a.txt'' occupied_local)) ''/tmp/00123/a.txt''
             = Some (LFile (delivered cs)))"
proof -
  let ?rp = "''/case/00123/a.txt''" and ?lp = "''/tmp/00123/a.txt''"
  let ?it = "mk_item ''a.txt'' 33188 500"
  let ?d = "download_file scenario_sftp ?it ?rp ?lp occupied_local"
  let ?s = "single_file scenario_sftp ''a.txt'' ?rp ?lp occupied_local"
  have old: "lfs occupied_local ?lp = Some (LFile [9, 9])"
    by (simp add: occupied_local_def)
  have fmt: "format_size (st_size ?it) = Inr (500, '''')"
    by (simp add: walker_eval)
  have "fst ?d = Inr ()" by (simp add: scenario_sftp_def occupied_local_def walker_eval)
  then have d: "?d = (Inr (), snd ?d)" by (simp add: prod_eq_iff)
  have "fst ?s = Inr ()" by (simp add: scenario_sftp_def occupied_local_def walker_eval)
  then have s: "?s = (Inr (), snd ?s)" by (simp add: prod_eq_iff)
  note main = transfer_opens_for_truncating_write
    [where sftp = scenario_sftp and it = ?it and rp = ?rp and lp = ?lp and w = occupied_local
       and old = "[9, 9]" and name = "''a.txt''" and label = "(500, '''')"]
  from main [where w' = "snd ?d"] fmt have e:
    "download_file scenario_sftp ?it ?rp ?lp (occupied_local\<lparr>lfs := (lfs occupied_local)(?lp \<mapsto> LFile [9, 9])\<rparr>)
       = download_file scenario_sftp ?it ?rp ?lp (occupied_local\<lparr>lfs := (lfs occupied_local)(?lp := None)\<rparr>)"
    by blast
  from main [where w' = "snd ?d"] old have a: "fst (open_wb ?lp occupied_local) = Inr ()" by simp
  from main [where w' = "snd ?d"] d have b: "\<exists>cs. read_chunks scenario_sftp ?rp = Inr cs
         \<and> lfs (snd ?d) ?lp = Some (LFile (delivered cs))" by blast
  from main [where w' = "snd ?s"] s have c: "\<exists>cs. read_chunks scenario_sftp ?rp = Inr cs
         \<and> lfs (snd ?s) ?lp = Some (LFile (delivered cs))" by blast
  from old fmt e a b c show ?thesis by blast
qed

text \<open>
  Claim C9, as stated, fails: the local \<open>a.txt\<close> of two bytes is already there, and both
  transfers succeed and leave the 500 bytes of the remote file in it.
\<close>

theorem existing_local_file_is_overwritten:
  "lfs occupied_local ''/tmp/00123/a.txt'' = Some (LFile [9, 9])
   \<and> fst (download_file scenario_sftp (mk_item ''a.txt'' 33188 500)
            ''/case/00123/a.txt'' ''/tmp/00123/a.txt'' occupied_local) = Inr ()
   \<and> lfs (snd (download_file scenario_sftp (mk_item ''a.txt'' 33188 500)
            ''/case/00123/a.txt'' ''/tmp/00123/a.txt'' occupied_local)) ''/tmp/00123/a.txt''
       = Some (LFile (replicate 500 65))
   \<and> fst (single_file scenario_sftp ''a.txt''
            ''/case/00123/a.txt'' ''/tmp/00123/a.txt'' occupied_local) = Inr ()
   \<and> lfs (snd (single_file scenario_sftp ''a.txt''
            ''/case/00123/a.txt'' ''/tmp/00123/a.txt'' occupied_local)) ''/tmp/00123/a.txt''
       = Some (LFile (replicate 500 65))"
  by (simp add: scenario_sftp_def occupied_local_def walker_eval)

section \<open>Properties of the session\<close>

lemma read_input_extends:
  "read_input p ins w = (r, ins1, w1) \<Longrightarrow> extends (emit (Input p) w) w1"
  by (cases "(p, ins, w)" rule: read_input.cases) auto

lemma filename_loop_extends:
  "filename_loop sftp rd ld ins w = (r, ins1, w1) \<Longrightarrow> extends w w1"
proof (induction sftp rd ld ins w arbitrary: r ins1 w1 rule: filename_loop.induct)
  case (3 sftp rd ld name ins w)
  let ?w1 = "emit (Stat (path_join rd name)) (emit (Input PFilename) w)"
  have e1: "extends w ?w1" by (simp add: extends_def)
  show ?case
  proof (cases "stat sftp (path_join rd name)")
    case (Inr a)
    with "3.prems" e1 show ?thesis by (auto simp: Let_def)
  next
    case (Inl e)
    show ?thesis
    proof (cases "e = FileNotFoundError")
      case True
      with Inl "3.prems" have
        "filename_loop sftp rd ld ins (emit (Print (NoRemoteFile name)) ?w1) = (r, ins1, w1)"
        by (simp add: Let_def)
      from "3.IH" [OF refl refl refl Inl True this] show ?thesis by (auto simp: extends_def)
    next
      case False
      with Inl "3.prems" e1 show ?thesis by (auto simp: Let_def)
    qed
  qed
qed (auto simp: extends_def)

lemma single_file_extends:
  assumes "single_file sftp name rp lp w = (r, w')"
  shows "extends w w'"
proof -
  obtain r1 w1 where o: "open_wb lp w = (r1, w1)" by (cases "open_wb lp w")
  from open_wb_extends [OF o] have e1: "extends w w1"
    by (auto intro: extends_trans [OF extends_emit])
  show ?thesis
  proof (cases r1)
    case (Inl e)
    with assms o e1 show ?thesis by (simp add: single_file_def)
  next
    case r1: (Inr u)
    let ?w2 = "emit (Stat rp) w1"
    from e1 have e2: "extends w ?w2" by (auto simp: extends_def)
    show ?thesis
    proof (cases "stat sftp rp")
      case (Inl e)
      with assms o r1 e2 show ?thesis by (simp add: single_file_def Let_def)
    next
      case (Inr a)
      obtain r3 w3 where g: "getfo sftp rp lp (\<lambda>x y. print_progress x y (st_size a)) ?w2 = (r3, w3)"
        by (cases "getfo sftp rp lp (\<lambda>x y. print_progress x y (st_size a)) ?w2")
      from getfo_extends [OF g] e2 have e3: "extends w w3"
        by (auto intro: extends_trans [OF extends_emit] extends_trans)
      from assms o r1 Inr g e3 show ?thesis
        by (cases r3) (auto simp: single_file_def Let_def intro: extends_trans)
    qed
  qed
qed

lemma act_on_choice_extends:
  assumes "act_on_choice env sftp rd ld choice ins w = (r, ins1, w1)"
  shows "extends w w1"
proof (cases "choice = ''yes''")
  case True
  with assms walker_extends(1) show ?thesis
    by (auto simp: act_on_choice_def split: prod.splits)
next
  case ny: False
  show ?thesis
  proof (cases "choice = ''no''")
    case False
    with ny assms show ?thesis by (auto simp: act_on_choice_def)
  next
    case True
    obtain r2 ins2 w2 where f: "filename_loop sftp rd ld ins w = (r2, ins2, w2)"
      by (cases "filename_loop sftp rd ld ins w")
    from filename_loop_extends [OF f] have e2: "extends w w2" .
    show ?thesis
    proof (cases r2)
      case (Inl e)
      with assms ny True f e2 show ?thesis by (simp add: act_on_choice_def)
    next
      case (Inr t)
      obtain name rp lp where t: "t = (name, rp, lp)" by (cases t)
      obtain r3 w3 where s: "single_file sftp name rp lp w2 = (r3, w3)"
        by (cases "single_file sftp name rp lp w2")
      from single_file_extends [OF s] e2 have "extends w w3" by (rule extends_trans [rotated])
      with assms ny True f Inr t s show ?thesis by (simp add: act_on_choice_def)
    qed
  qed
qed

lemma makedirs_extends: "makedirs p w = (r, w') \<Longrightarrow> extends w w'"
  by (auto simp: makedirs_def Let_def extends_def split: option.splits)

lemma case_body_extends:
  assumes "case_body env sftp cn lpd ins w = (r, ins1, w1)"
  shows "extends (emit (Listdir (''/case/'' @ cn)) w) w1"
proof -
  let ?rd = "''/case/'' @ cn" and ?lcd = "path_join (expanduser env lpd) cn"
  let ?w1 = "emit (Listdir ?rd) w"
  show ?thesis
  proof (cases "listdir sftp ?rd")
    case (Inl e)
    with assms show ?thesis by (auto simp: case_body_def Let_def simp del: append.simps split: if_splits)
  next
    case ls: (Inr contents)
    obtain r2 w2 where m: "(if lfs ?w1 ?lcd = None then makedirs ?lcd ?w1 else (Inr (), ?w1)) = (r2, w2)"
      by (cases "if lfs ?w1 ?lcd = None then makedirs ?lcd ?w1 else (Inr (), ?w1)")
    then have e2: "extends ?w1 w2" by (auto split: if_splits dest: makedirs_extends)
    show ?thesis
    proof (cases r2)
      case (Inl e)
      with assms ls m e2 show ?thesis by (simp add: case_body_def Let_def del: append.simps)
    next
      case r2: (Inr u)
      let ?w4 = "emit (Print (Contents cn contents)) (emit (Listdir ?rd) w2)"
      from e2 have e4: "extends ?w1 ?w4" by (auto simp: extends_def)
      obtain r5 ins5 w5 where ri: "read_input PChoice ins ?w4 = (r5, ins5, w5)"
        by (cases "read_input PChoice ins ?w4")
      from read_input_extends [OF ri] e4 have e5: "extends ?w1 w5"
        by (auto intro: extends_trans [OF extends_emit] extends_trans)
      show ?thesis
      proof (cases r5)
        case (Inl e)
        with assms ls m r2 ri e5 show ?thesis by (simp add: case_body_def Let_def del: append.simps)
      next
        case r5: (Inr answer)
        obtain r6 ins6 w6 where ac: "act_on_choice env sftp ?rd ?lcd (lower answer) ins5 w5 = (r6, ins6, w6)"
          by (cases "act_on_choice env sftp ?rd ?lcd (lower answer) ins5 w5")
        from act_on_choice_extends [OF ac] e5 have e6: "extends ?w1 w6"
          by (rule extends_trans [rotated])
        from assms ls m r2 ri r5 ac e6 show ?thesis
          by (cases r6) (auto simp: case_body_def Let_def simp del: append.simps intro: extends_trans)
      qed
    qed
  qed
qed

lemma selection_extends:
  assumes "selection env ins w = (r, ins1, w1)"
  shows "extends (emit (Input PCase) w) w1"
proof -
  obtain r2 ins2 w2 where a: "read_input PCase ins w = (r2, ins2, w2)"
    by (cases "read_input PCase ins w")
  from read_input_extends [OF a] have e2: "extends (emit (Input PCase) w) w2" .
  show ?thesis
  proof (cases r2)
    case (Inl e)
    with assms a e2 show ?thesis by (simp add: selection_def)
  next
    case r2: (Inr cn)
    obtain r3 ins3 w3 where b: "read_input PLocalParent ins2 w2 = (r3, ins3, w3)"
      by (cases "read_input PLocalParent ins2 w2")
    from read_input_extends [OF b] e2 have e3: "extends (emit (Input PCase) w) w3"
      by (auto intro: extends_trans [OF extends_emit] extends_trans)
    show ?thesis
    proof (cases r3)
      case (Inl e)
      with assms a r2 b e3 show ?thesis by (simp add: selection_def)
    next
      case r3: (Inr lpd)
      from e3 have e4: "extends (emit (Input PCase) w) (emit OpenSftp w3)"
        by (auto simp: extends_def)
      show ?thesis
      proof (cases "open_sftp env")
        case (Inl e)
        with assms a r2 b r3 e4 show ?thesis by (simp add: selection_def Let_def)
      next
        case (Inr sftp)
        obtain r5 ins5 w5 where c: "case_body env sftp cn lpd ins3 (emit OpenSftp w3) = (r5, ins5, w5)"
          by (cases "case_body env sftp cn lpd ins3 (emit OpenSftp w3)")
        from case_body_extends [OF c] e4 have "extends (emit (Input PCase) w) w5"
          by (auto intro: extends_trans [OF extends_emit] extends_trans)
        then have "extends (emit (Input PCase) w) (emit CloseSftp w5)"
          by (auto simp: extends_def)
        with assms a r2 b r3 Inr c show ?thesis by (simp add: selection_def Let_def)
      qed
    qed
  qed
qed

lemma iteration_prompts_case:
  assumes "connect env k u p = None"
  shows "\<exists>tr. trace (snd (snd (iteration env u p k ins w)))
           = trace w @ Connect u p # Print Established # Input PCase # tr"
proof -
  let ?w2 = "emit (Print Established) (emit (Connect u p) w)"
  obtain r ins1 w1 where s: "selection env ins ?w2 = (r, ins1, w1)"
    by (cases "selection env ins ?w2")
  from selection_extends [OF s] obtain tr where
    tr: "trace w1 = trace w @ Connect u p # Print Established # Input PCase # tr"
    by (auto simp: extends_def)
  from assms s tr show ?thesis
    by (cases r) (auto simp: iteration_def Let_def)
qed

lemma iteration_extends:
  assumes "iteration env u p k ins w = (fl, ins1, w1)"
  shows "extends w w1"
proof (cases "connect env k u p")
  case (Some e)
  with assms show ?thesis
    by (auto simp: iteration_def Let_def extends_def split: if_splits)
next
  case None
  from iteration_prompts_case [OF None, of ins w] assms show ?thesis
    by (auto simp: extends_def)
qed

lemma connect_loop_extends:
  "connect_loop env u p k ins w = (r, ins', w') \<Longrightarrow> extends w w'"
proof (induction env u p k ins w arbitrary: r ins' w' rule: connect_loop.induct)
  case (1 env u p k ins w)
  obtain fl ins1 w1 where it: "iteration env u p k ins w = (fl, ins1, w1)"
    by (cases "iteration env u p k ins w")
  from iteration_extends [OF it] have e1: "extends w w1" .
  show ?case
  proof (cases fl)
    case Continue
    with it "1.prems" have "connect_loop env u p (Suc k) ins1 w1 = (r, ins', w')"
      by (subst (asm) connect_loop.simps) simp
    from "1.IH" [OF it [symmetric, unfolded Continue] refl refl this] e1
    show ?thesis by (rule extends_trans [rotated])
  next
    case Break
    with it "1.prems" e1 show ?thesis by (subst (asm) connect_loop.simps) simp
  next
    case (Raise e)
    with it "1.prems" e1 show ?thesis by (subst (asm) connect_loop.simps) simp
  qed
qed

lemma connect_loop_prompts_case:
  assumes "connect env k u p = None"
  shows "\<exists>tr. trace (snd (snd (connect_loop env u p k ins w)))
           = trace w @ Connect u p # Print Established # Input PCase # tr"
proof -
  obtain fl ins1 w1 where it: "iteration env u p k ins w = (fl, ins1, w1)"
    by (cases "iteration env u p k ins w")
  from iteration_prompts_case [OF assms, of ins w] it obtain tr where
    tr: "trace w1 = trace w @ Connect u p # Print Established # Input PCase # tr" by auto
  show ?thesis
  proof (cases fl)
    case Continue
    obtain r ins2 w2 where cl: "connect_loop env u p (Suc k) ins1 w1 = (r, ins2, w2)"
      by (cases "connect_loop env u p (Suc k) ins1 w1")
    from connect_loop_extends [OF cl] obtain tr' where "trace w2 = trace w1 @ tr'"
      by (auto simp: extends_def)
    with tr have "trace w2 = trace w @ Connect u p # Print Established # Input PCase # (tr @ tr')"
      by simp
    moreover from it Continue cl have "connect_loop env u p k ins w = (r, ins2, w2)"
      by (subst connect_loop.simps) simp
    ultimately show ?thesis by auto
  next
    case Break
    with it have "connect_loop env u p k ins w = (None, ins1, w1)"
      by (subst connect_loop.simps) simp
    with tr show ?thesis by auto
  next
    case (Raise e)
    with it have "connect_loop env u p k ins w = (Some e, ins1, w1)"
      by (subst connect_loop.simps) simp
    with tr show ?thesis by auto
  qed
qed

lemma connect_loop_connect_fails:
  assumes "connect env k u p = Some e"
  shows "connect_loop env u p k ins w
     = (if e = AuthenticationException
        then (None, ins, w\<lparr>trace := trace w @ [Connect u p, Print AuthFailed]\<rparr>)
        else if is_SSHException e
        then (None, ins, w\<lparr>trace := trace w @ [Connect u p, Print SSHFailed]\<rparr>)
        else if e = KeyboardInterrupt
        then (None, ins, w\<lparr>trace := trace w @ [Connect u p, Print Aborted]\<rparr>)
        else (Some e, ins, w\<lparr>trace := trace w @ [Connect u p]\<rparr>))"
  using assms by (subst connect_loop.simps) (simp add: iteration_def Let_def emit_def)

lemma missing_case_round:
  assumes c: "connect env k u p = None" and o: "open_sftp env = Inr sftp"
    and l: "listdir sftp (''/case/'' @ cn) = Inl e" and io: "is_IOError e"
  shows "iteration env u p k (Line cn # Line lpd # ins) w
       = (Continue, ins,
          w\<lparr>trace := trace w @
             [Connect u p, Print Established, Input PCase, Input PLocalParent, OpenSftp,
              Listdir (''/case/'' @ cn), Print (NoRemoteDir cn), CloseSftp]\<rparr>)"
proof -
  from l io have cb: "\<And>w0. case_body env sftp cn lpd ins w0
      = (Inr (), ins, emit (Print (NoRemoteDir cn)) (emit (Listdir (''/case/'' @ cn)) w0))"
    by (simp add: case_body_def Let_def del: append.simps)
  from o have sel: "\<And>w0. selection env (Line cn # Line lpd # ins) w0
      = (Inr (), ins, emit CloseSftp (emit (Print (NoRemoteDir cn)) (emit (Listdir (''/case/'' @ cn))
           (emit OpenSftp (emit (Input PLocalParent) (emit (Input PCase) w0))))))"
    by (simp add: selection_def Let_def cb del: append.simps)
  from c show ?thesis
    by (simp add: iteration_def Let_def sel emit_def del: append.simps)
qed

text \<open>
  Claim C8, as amended.  The connection is up, the SFTP channel opens, and listing
  \<open>/case/<case number>\<close> fails with an \<open>IOError\<close>.  Then the round reports that the
  remote directory does not exist, closes only the SFTP channel of the \<open>with\<close> block, and
  ends by going on to the next round of the loop: the SSH connection is not closed, no
  exception escapes, the local file system is untouched and the input that was not read
  is still there.  The next round starts at the head of the loop, which calls \<open>connect\<close>
  again.  When that call returns, the loop prints that the connection is established and
  asks for the case number again.  When that call raises, the case number is not asked
  for again: the loop ends as it does after any failed connection attempt, by \<open>break\<close>
  after the message for an authentication failure, another SSH failure or an interrupt,
  and with the exception itself for anything else.
\<close>

theorem missing_case_directory_goes_to_next_round:
  "connect env k u p = None \<Longrightarrow> open_sftp env = Inr sftp \<Longrightarrow>
   listdir sftp (''/case/'' @ cn) = Inl e \<Longrightarrow> is_IOError e \<Longrightarrow>
     iteration env u p k (Line cn # Line lpd # ins) w
       = (Continue, ins,
          w\<lparr>trace := trace w @
             [Connect u p, Print Established, Input PCase, Input PLocalParent, OpenSftp,
              Listdir (''/case/'' @ cn), Print (NoRemoteDir cn), CloseSftp]\<rparr>)
   \<and> connect_loop env u p k (Line cn # Line lpd # ins) w
       = connect_loop env u p (Suc k) ins
          (w\<lparr>trace := trace w @
             [Connect u p, Print Established, Input PCase, Input PLocalParent, OpenSftp,
              Listdir (''/case/'' @ cn), Print (NoRemoteDir cn), CloseSftp]\<rparr>)
   \<and> (connect env (Suc k) u p = None \<longrightarrow>
        (\<exists>tr. trace (snd (snd (iteration env u p (Suc k) ins
            (w\<lparr>trace := trace w @
               [Connect u p, Print Established, Input PCase, Input PLocalParent, OpenSftp,
                Listdir (''/case/'' @ cn), Print (NoRemoteDir cn), CloseSftp]\<rparr>))))
          = trace w @
               [Connect u p, Print Established, Input PCase, Input PLocalParent, OpenSftp,
                Listdir (''/case/'' @ cn), Print (NoRemoteDir cn), CloseSftp]
              @ Connect u p # Print Established # Input PCase # tr)
      \<and> (\<exists>tr. trace (snd (snd (connect_loop env u p k (Line cn # Line lpd # ins) w)))
          = trace w @
               [Connect u p, Print Established, Input PCase, Input PLocalParent, OpenSftp,
                Listdir (''/case/'' @ cn), Print (NoRemoteDir cn), CloseSftp,
                Connect u p, Print Established, Input PCase] @ tr))
   \<and> (\<forall>e'. connect env (Suc k) u p = Some e' \<longrightarrow>
        connect_loop env u p k (Line cn # Line lpd # ins) w
          = (if is_SSHException e' \<or> e' = KeyboardInterrupt then None else Some e',
             ins,
             w\<lparr>trace := trace w @
                [Connect u p, Print Established, Input PCase, Input PLocalParent, OpenSftp,
                 Listdir (''/case/'' @ cn), Print (NoRemoteDir cn), CloseSftp, Connect u p]
                @ (if e' = AuthenticationException then [Print AuthFailed]
                   else if is_SSHException e' then [Print SSHFailed]
                   else if e' = KeyboardInterrupt then [Print Aborted]
                   else [])\<rparr>))"
proof -
  assume c: "connect env k u p = None" and o: "open_sftp env = Inr sftp"
    and l: "listdir sftp (''/case/'' @ cn) = Inl e" and io: "is_IOError e"
  let ?round = "[Connect u p, Print Established, Input PCase, Input PLocalParent, OpenSftp,
              Listdir (''/case/'' @ cn), Print (NoRemoteDir cn), CloseSftp]"
  let ?w' = "w\<lparr>trace := trace w @ ?round\<rparr>"
  have it: "iteration env u p k (Line cn # Line lpd # ins) w = (Continue, ins, ?w')"
    by (rule missing_case_round [OF c o l io])
  have cl: "connect_loop env u p k (Line cn # Line lpd # ins) w
       = connect_loop env u p (Suc k) ins ?w'"
    using it by (subst connect_loop.simps) simp
  have again: "connect env (Suc k) u p = None \<longrightarrow>
        (\<exists>tr. trace (snd (snd (iteration env u p (Suc k) ins ?w')))
          = trace w @ ?round @ Connect u p # Print Established # Input PCase # tr)
      \<and> (\<exists>tr. trace (snd (snd (connect_loop env u p k (Line cn # Line lpd # ins) w)))
          = trace w @
               [Connect u p, Print Established, Input PCase, Input PLocalParent, OpenSftp,
                Listdir (''/case/'' @ cn), Print (NoRemoteDir cn), CloseSftp,
                Connect u p, Print Established, Input PCase] @ tr)"
  proof
    assume c1: "connect env (Suc k) u p = None"
    from iteration_prompts_case [OF c1, of ins ?w'] have a:
      "\<exists>tr. trace (snd (snd (iteration env u p (Suc k) ins ?w')))
          = trace w @ ?round @ Connect u p # Print Established # Input PCase # tr"
      by simp
    from connect_loop_prompts_case [OF c1, of ins ?w'] have b:
      "\<exists>tr. trace (snd (snd (connect_loop env u p k (Line cn # Line lpd # ins) w)))
          = trace w @
               [Connect u p, Print Established, Input PCase, Input PLocalParent, OpenSftp,
                Listdir (''/case/'' @ cn), Print (NoRemoteDir cn), CloseSftp,
                Connect u p, Print Established, Input PCase] @ tr"
      unfolding cl by simp
    from a b show "(\<exists>tr. trace (snd (snd (iteration env u p (Suc k) ins ?w')))
          = trace w @ ?round @ Connect u p # Print Established # Input PCase # tr)
      \<and> (\<exists>tr. trace (snd (snd (connect_loop env u p k (Line cn # Line lpd # ins) w)))
          = trace w @
               [Connect u p, Print Established, Input PCase, Input PLocalParent, OpenSftp,
                Listdir (''/case/'' @ cn), Print (NoRemoteDir cn), CloseSftp,
                Connect u p, Print Established, Input PCase] @ tr)" by (rule conjI)
  qed
  have fails: "\<forall>e'. connect env (Suc k) u p = Some e' \<longrightarrow>
        connect_loop env u p k (Line cn # Line lpd # ins) w
          = (if is_SSHException e' \<or> e' = KeyboardInterrupt then None else Some e',
             ins,
             w\<lparr>trace := trace w @
                [Connect u p, Print Established, Input PCase, Input PLocalParent, OpenSftp,
                 Listdir (''/case/'' @ cn), Print (NoRemoteDir cn), CloseSftp, Connect u p]
                @ (if e' = AuthenticationException then [Print AuthFailed]
                   else if is_SSHException e' then [Print SSHFailed]
                   else if e' = KeyboardInterrupt then [Print Aborted]
                   else [])\<rparr>)"
  proof (intro allI impI)
    fix e'
    assume c1: "connect env (Suc k) u p = Some e'"
    show "connect_loop env u p k (Line cn # Line lpd # ins) w
          = (if is_SSHException e' \<or> e' = KeyboardInterrupt then None else Some e',
             ins,
             w\<lparr>trace := trace w @
                [Connect u p, Print Established, Input PCase, Input PLocalParent, OpenSftp,
                 Listdir (''/case/'' @ cn), Print (NoRemoteDir cn), CloseSftp, Connect u p]
                @ (if e' = AuthenticationException then [Print AuthFailed]
                   else if is_SSHException e' then [Print SSHFailed]
                   else if e' = KeyboardInterrupt then [Print Aborted]
                   else [])\<rparr>)"
      unfolding cl connect_loop_connect_fails [OF c1]
      by (cases e') simp_all
  qed
  from it cl again fails show ?thesis by blast
qed

text \<open>
  The theorem on the case number 99999, which the server does not have: once with a
  second connection attempt that returns, once with one that raises \<open>SSHException\<close>.
\<close>

theorem missing_case_directory_goes_to_next_round_witness:
  "connect scenario_env 0 ''alice'' ''secret'' = None
   \<and> open_sftp scenario_env = Inr scenario_sftp
   \<and> listdir scenario_sftp (''/case/'' @ ''99999'') = Inl FileNotFoundError
   \<and> is_IOError FileNotFoundError
   \<and> iteration scenario_env ''alice'' ''secret'' 0 [Line ''99999'', Line ''/tmp'', Line ''00123''] start
       = (Continue, [Line ''00123''],
          start\<lparr>trace := trace start @
             [Connect ''alice'' ''secret'', Print Established, Input PCase, Input PLocalParent,
              OpenSftp, Listdir (''/case/'' @ ''99999''), Print (NoRemoteDir ''99999''), CloseSftp]\<rparr>)
   \<and> connect scenario_env (Suc 0) ''alice'' ''secret'' = None
   \<and> (\<exists>tr. trace (snd (snd (connect_loop scenario_env ''alice'' ''secret'' 0
                 [Line ''99999'', Line ''/tmp'', Line ''00123''] start)))
          = trace start @
               [Connect ''alice'' ''secret'', Print Established, Input PCase, Input PLocalParent,
                OpenSftp, Listdir (''/case/'' @ ''99999''), Print (NoRemoteDir ''99999''), CloseSftp,
                Connect ''alice'' ''secret'', Print Established, Input PCase] @ tr)
   \<and> connect flaky_env 0 ''alice'' ''secret'' = None
   \<and> open_sftp flaky_env = Inr scenario_sftp
   \<and> connect flaky_env (Suc 0) ''alice'' ''secret'' = Some SSHException
   \<and> connect_loop flaky_env ''alice'' ''secret'' 0 [Line ''99999'', Line ''/tmp'', Line ''00123''] start
       = (None, [Line ''00123''],
          start\<lparr>trace := trace start @
             [Connect ''alice'' ''secret'', Print Established, Input PCase, Input PLocalParent,
              OpenSftp, Listdir (''/case/'' @ ''99999''), Print (NoRemoteDir ''99999''), CloseSftp,
              Connect ''alice'' ''secret'', Print SSHFailed]\<rparr>)"
proof -
  have c: "connect scenario_env 0 ''alice'' ''secret'' = None" by (simp add: scenario_env_def)
  have c1: "connect scenario_env (Suc 0) ''alice'' ''secret'' = None" by (simp add: scenario_env_def)
  have o: "open_sftp scenario_env = Inr scenario_sftp" by (simp add: scenario_env_def)
  have l: "listdir scenario_sftp (''/case/'' @ ''99999'') = Inl FileNotFoundError"
    by (simp add: scenario_sftp_def)
  have io: "is_IOError FileNotFoundError" by simp
  have fc: "connect flaky_env 0 ''alice'' ''secret'' = None" by (simp add: flaky_env_def)
  have fc1: "connect flaky_env (Suc 0) ''alice'' ''secret'' = Some SSHException"
    by (simp add: flaky_env_def)
  have fo: "open_sftp flaky_env = Inr scenario_sftp" by (simp add: flaky_env_def)
  note good = missing_case_directory_goes_to_next_round
    [OF c o l io, where lpd = "''/tmp''" and ins = "[Line ''00123'']" and w = start]
  note bad = missing_case_directory_goes_to_next_round
    [OF fc fo l io, where lpd = "''/tmp''" and ins = "[Line ''00123'']" and w = start]
  from bad [THEN conjunct2, THEN conjunct2, THEN conjunct2, THEN spec, THEN mp, OF fc1]
  have b: "connect_loop flaky_env ''alice'' ''secret'' 0
         [Line ''99999'', Line ''/tmp'', Line ''00123''] start
       = (None, [Line ''00123''],
          start\<lparr>trace := trace start @
             [Connect ''alice'' ''secret'', Print Established, Input PCase, Input PLocalParent,
              OpenSftp, Listdir (''/case/'' @ ''99999''), Print (NoRemoteDir ''99999''), CloseSftp,
              Connect ''alice'' ''secret'', Print SSHFailed]\<rparr>)"
    by (simp del: connect_loop.simps)
  from good c c1 o l io fc fc1 fo b show ?thesis by blast
qed

text \<open>
  Claim C8, as stated, fails.  The user gives the case number 99999, then has the case
  number 00123 ready.  The second call of \<open>connect\<close> raises \<open>SSHException\<close>: the run
  reports the failure, closes the connection and ends.  The case number is asked for
  once only, and the lines that were ready are never read.
\<close>

theorem missing_case_directory_then_failed_reconnect_ends_session:
  "listdir scenario_sftp ''/case/99999'' = Inl FileNotFoundError
   \<and> script flaky_env
         [Line ''alice'', Line ''secret'', Line ''99999'', Line ''/tmp'', Line ''00123'', Line ''/tmp'',
          Line ''yes''] start
       = (None,
          \<lparr>lfs = Map.empty,
           trace = [Input PUser, Input PPassword, Connect ''alice'' ''secret'', Print Established,
                    Input PCase, Input PLocalParent, OpenSftp, Listdir ''/case/99999'',
                    Print (NoRemoteDir ''99999''), CloseSftp, Connect ''alice'' ''secret'',
                    Print SSHFailed, CloseSSH, Print SessionEnded]\<rparr>)"
  by (simp add: script_def handler_def teardown_def start_def emit_def connect_loop.simps
      iteration_def selection_def case_body_def flaky_env_def scenario_sftp_def Let_def)



text \<open>
  Claim C5.  The claim is that whatever happens, the connection is closed once and the
  end message is printed.  An interrupt at the prompt for the user name, an interrupt at
  the prompt for the password, and the end of the input at the first prompt all reach
  the \<open>finally\<close> block before \<open>ssh_client\<close> is bound (line 70): \<open>ssh_client.close()\<close>
  raises \<open>NameError\<close>, nothing is closed and the end message is not printed.
\<close>

theorem interrupt_at_credentials_skips_teardown:
  "script env [Interrupt] start
     = (Some NameError, \<lparr>lfs = Map.empty, trace = [Input PUser]\<rparr>)
   \<and> script env [Line u, Interrupt] start
     = (Some NameError, \<lparr>lfs = Map.empty, trace = [Input PUser, Input PPassword]\<rparr>)
   \<and> script env [] start
     = (Some NameError, \<lparr>lfs = Map.empty, trace = [Input PUser, Print (ErrorOccurred EOFError)]\<rparr>)
   \<and> CloseSSH \<notin> set (trace (snd (script env [Interrupt] start)))
   \<and> Print SessionEnded \<notin> set (trace (snd (script env [Interrupt] start)))"
  by (simp add: script_def handler_def teardown_def start_def emit_def)

text \<open>
  Claim C6.  The claim is that an interrupt during the entry of the password prints the
  abort message.  The prompt (line 67) is outside both \<open>except KeyboardInterrupt\<close>
  handlers: the run ends with \<open>NameError\<close> from the \<open>finally\<close> block, having printed
  neither the abort message nor the end message (and having listed nothing).  The
  interrupt during \<open>connect\<close>, one statement later, does print the abort message and is
  followed by the teardown.
\<close>

theorem interrupt_at_password_prints_no_abort_message:
  "script env [Line u, Interrupt] start
     = (Some NameError, \<lparr>lfs = Map.empty, trace = [Input PUser, Input PPassword]\<rparr>)
   \<and> Print Aborted \<notin> set (trace (snd (script env [Line u, Interrupt] start)))
   \<and> Print SessionEnded \<notin> set (trace (snd (script env [Line u, Interrupt] start)))
   \<and> script (scenario_env\<lparr>connect := (\<lambda>k username password. Some KeyboardInterrupt)\<rparr>)
         [Line ''alice'', Line ''secret''] start
     = (None, \<lparr>lfs = Map.empty,
               trace = [Input PUser, Input PPassword, Connect ''alice'' ''secret'', Print Aborted,
                        CloseSSH, Print SessionEnded]\<rparr>)"
  by (simp add: script_def handler_def teardown_def start_def emit_def connect_loop.simps
      iteration_def scenario_env_def Let_def)

end
